theory Spec2Isabelle
  imports Complex_Main "HOL-Library.Char_ord" "HOL-Library.List_Lexorder" "HOL-Library.Multiset"
begin

section \<open>Errors\<close>

text \<open>
  Every exception the pipeline can raise is a value. \<open>AssertionError\<close> is the failed
  \<^verbatim>\<open>assert\<close> of \<^verbatim>\<open>Stage2\<close> (the specification calls it SelectionMismatch);
  \<open>ValueError\<close>, \<open>TypeError\<close> and \<open>AxisError\<close> are what numpy raises;
  \<open>ExternalError\<close> stands for whatever a collaborator that is not part of
  \<^verbatim>\<open>segmentation.py\<close> (a Keras model, the image loader, the post-processor, the
  mask codec) raises.
\<close>

datatype error = AssertionError | ValueError | TypeError | AxisError | NanResult
  | ExternalError string

definition ebind :: "error + 'a \<Rightarrow> ('a \<Rightarrow> error + 'b) \<Rightarrow> error + 'b" where
  "ebind m f = (case m of Inl e \<Rightarrow> Inl e | Inr x \<Rightarrow> f x)"

text \<open>A list comprehension whose body may raise: the first exception, in list order, ends it.\<close>

fun sequence_err :: "(error + 'a) list \<Rightarrow> error + 'a list" where
  "sequence_err [] = Inr []"
| "sequence_err (r # rs) =
     (case r of Inl e \<Rightarrow> Inl e
      | Inr x \<Rightarrow> (case sequence_err rs of Inl e \<Rightarrow> Inl e | Inr xs \<Rightarrow> Inr (x # xs)))"

section \<open>numpy arrays\<close>

text \<open>
  An \<^verbatim>\<open>np.ndarray\<close> is its shape and its elements in C (row-major) order. Elements
  are exact real numbers: the rounding of IEEE floats is outside this model. The
  statements of the claims below involve only operations that are exact on floats as well
  (\<open>x / 1\<close>, \<open>(x + x) / 2\<close>, \<open>(1 + 0) / 2\<close>, comparisons), or say which values are
  averaged rather than what the rounded average is; the one statement that needs exact
  arithmetic, on the order of the models of an ensemble, says so.
\<close>

record ndarray =
  shape :: "nat list"
  data :: "real list"

definition wf_ndarray :: "ndarray \<Rightarrow> bool" where
  "wf_ndarray a = (length (data a) = prod_list (shape a))"

text \<open>\<open>blocks n k xs\<close>: the \<open>n\<close> consecutive blocks of \<open>k\<close> elements of a buffer.\<close>

definition blocks :: "nat \<Rightarrow> nat \<Rightarrow> 'a list \<Rightarrow> 'a list list" where
  "blocks n k xs = map (\<lambda>i. take k (drop (i * k) xs)) [0..<n]"

text \<open>
  Iterating an array (\<^verbatim>\<open>for x in arr\<close>) yields its sub-arrays along the first axis;
  a 0-d array is not iterable (TypeError).
\<close>

definition np_iter :: "ndarray \<Rightarrow> error + ndarray list" where
  "np_iter a =
     (case shape a of
        [] \<Rightarrow> Inl TypeError
      | n # s \<Rightarrow> Inr (map (\<lambda>d. \<lparr>shape = s, data = d\<rparr>) (blocks n (prod_list s) (data a))))"

text \<open>
  \<^verbatim>\<open>np.asarray\<close> of a list of arrays: equal shapes are stacked along a new first
  axis; an empty list gives the array of shape \<open>(0,)\<close>; a ragged list raises ValueError
  (numpy 1.24 and later).
\<close>

definition np_asarray :: "ndarray list \<Rightarrow> error + ndarray" where
  "np_asarray as =
     (case as of
        [] \<Rightarrow> Inr \<lparr>shape = [0], data = []\<rparr>
      | a # _ \<Rightarrow>
          if list_all (\<lambda>b. shape b = shape a) as
          then Inr \<lparr>shape = length as # shape a, data = concat (map data as)\<rparr>
          else Inl ValueError)"

text \<open>\<^verbatim>\<open>np.stack\<close>: as above, but an empty list raises ValueError.\<close>

definition np_stack :: "ndarray list \<Rightarrow> error + ndarray" where
  "np_stack as =
     (case as of
        [] \<Rightarrow> Inl ValueError
      | a # _ \<Rightarrow>
          if list_all (\<lambda>b. shape b = shape a) as
          then Inr \<lparr>shape = length as # shape a, data = concat (map data as)\<rparr>
          else Inl ValueError)"

text \<open>
  \<^verbatim>\<open>np.mean(a, axis=0)\<close>: the element-wise sum of the sub-arrays along the first
  axis, divided by their number. A 0-d array has no axis 0 (AxisError). For an array
  with first dimension 0 numpy returns NaN with a warning; the reals have no NaN, so that
  case is the value \<open>NanResult\<close>. Neither call site of this program reaches it:
  \<^verbatim>\<open>np.stack\<close> raises on an empty list first, and the list in
  \<^verbatim>\<open>TTA_Segmentation_All\<close> always has two entries.
\<close>

definition np_mean_axis0 :: "ndarray \<Rightarrow> error + ndarray" where
  "np_mean_axis0 a =
     (case shape a of
        [] \<Rightarrow> Inl AxisError
      | n # s \<Rightarrow>
          if n = 0 then Inl NanResult
          else Inr \<lparr>shape = s,
                    data = map (\<lambda>j. sum_list (map (\<lambda>r. r ! j) (blocks n (prod_list s) (data a)))
                                      / real n)
                               [0..<prod_list s]\<rparr>)"

text \<open>\<^verbatim>\<open>a.squeeze()\<close> without an axis argument drops every axis of size 1.\<close>

definition np_squeeze :: "ndarray \<Rightarrow> ndarray" where
  "np_squeeze a = a\<lparr>shape := filter (\<lambda>d. d \<noteq> 1) (shape a)\<rparr>"

text \<open>
  \<^verbatim>\<open>np.fliplr(x)\<close> is \<^verbatim>\<open>x[:, ::-1]\<close>: it reverses axis 1 and raises ValueError
  when \<open>x\<close> has fewer than two axes.
\<close>

definition np_fliplr :: "ndarray \<Rightarrow> error + ndarray" where
  "np_fliplr x =
     (case shape x of
        h # w # r \<Rightarrow>
          Inr (x\<lparr>data := concat (map (\<lambda>row. concat (rev (blocks w (prod_list r) row)))
                                     (blocks h (w * prod_list r) (data x)))\<rparr>)
      | _ \<Rightarrow> Inl ValueError)"

section \<open>The prediction runner\<close>

text \<open>
  A Keras model is opaque: \<^verbatim>\<open>model.predict(x, batch_size=b)\<close> is a deterministic
  function of the batch and the batch size that returns an array or raises.
  \<^verbatim>\<open>seg_model\<close> is one model or a list/tuple of models
  (\<^verbatim>\<open>isinstance(seg_model, (list, tuple))\<close>).
\<close>

type_synonym model = "ndarray \<Rightarrow> nat \<Rightarrow> error + ndarray"

datatype seg_model = Single model | Ensemble "model list"

text \<open>
  \<^verbatim>\<open>np.asarray([np.fliplr(x) for x in arr])\<close>, lines 79 and 82 of
  \<^verbatim>\<open>segmentation.py\<close>.
\<close>

definition fliplr_all :: "ndarray \<Rightarrow> error + ndarray" where
  "fliplr_all arr =
     ebind (np_iter arr) (\<lambda>xs.
     ebind (sequence_err (map np_fliplr xs)) np_asarray)"

definition TTA_Segmentation_All :: "model \<Rightarrow> ndarray \<Rightarrow> nat \<Rightarrow> error + ndarray" where
  "TTA_Segmentation_All model test_arrays batch_size =
     ebind (model test_arrays batch_size) (\<lambda>preds_test.
     ebind (fliplr_all test_arrays) (\<lambda>x_test.
     ebind (model x_test batch_size) (\<lambda>preds_test_tta.
     ebind (fliplr_all preds_test_tta) (\<lambda>preds_test_tta.
     ebind (np_asarray [preds_test, preds_test_tta]) np_mean_axis0))))"

definition run_seg_prediction :: "ndarray \<Rightarrow> seg_model \<Rightarrow> nat \<Rightarrow> bool \<Rightarrow> error + ndarray" where
  "run_seg_prediction x_test seg_model batch_size tta =
     (if tta then
        (case seg_model of
           Ensemble models \<Rightarrow>
             ebind (sequence_err (map (\<lambda>mdl. TTA_Segmentation_All mdl x_test batch_size)
                                      models)) (\<lambda>preds.
             ebind (np_stack preds) (\<lambda>stacked.
             ebind (np_mean_axis0 stacked) (\<lambda>preds_seg. Inr (np_squeeze preds_seg))))
         | Single model \<Rightarrow>
             ebind (TTA_Segmentation_All model x_test batch_size) (\<lambda>preds_seg.
               Inr (np_squeeze preds_seg)))
      else
        (case seg_model of
           Ensemble models \<Rightarrow>
             ebind (sequence_err (map (\<lambda>mdl. mdl x_test batch_size) models)) (\<lambda>preds.
             ebind (np_stack preds) (\<lambda>stacked.
             ebind (np_mean_axis0 stacked) (\<lambda>preds_seg. Inr (np_squeeze preds_seg))))
         | Single model \<Rightarrow>
             ebind (model x_test batch_size) (\<lambda>preds_seg. Inr (np_squeeze preds_seg))))"

section \<open>The classification table and Stage 2\<close>

text \<open>
  A cell of the \<^verbatim>\<open>EncodedPixels\<close> column holds a Python int (\<open>1\<close>: positive, mask
  pending; \<open>-1\<close>: negative) or a string (a run-length encoding, \<open>"-1"\<close>, or blank).
  The table is its rows in order: \<^verbatim>\<open>ImageId\<close>, \<^verbatim>\<open>EncodedPixels\<close>.
\<close>

datatype cell = IntCell int | StrCell string

type_synonym dataframe = "(string \<times> cell) list"

text \<open>
  What \<^verbatim>\<open>segmentation.py\<close> imports and calls but does not define is a parameter:
  \<^verbatim>\<open>Path(fpath).stem\<close> (pathlib), \<^verbatim>\<open>load_input\<close>,
  \<^verbatim>\<open>preprocess_input\<close> (the default \<^verbatim>\<open>preprocess_fn\<close>, with
  \<^verbatim>\<open>model_name=None\<close>), \<^verbatim>\<open>post_process_all\<close> and
  \<^verbatim>\<open>mask2rle\<close>. Each but the first may raise.
\<close>

record collaborators =
  stem :: "string \<Rightarrow> string"
  load_input :: "string \<Rightarrow> nat \<Rightarrow> nat \<Rightarrow> error + ndarray"
  preprocess_input :: "ndarray \<Rightarrow> error + ndarray"
  post_process_all :: "ndarray \<Rightarrow> real \<Rightarrow> nat \<Rightarrow> error + ndarray"
  mask2rle :: "ndarray \<Rightarrow> nat \<Rightarrow> nat \<Rightarrow> error + string"

text \<open>
  \<^verbatim>\<open>Stage2\<close> returns \<^verbatim>\<open>None\<close>; what it leaves behind are two files:
  \<^verbatim>\<open>submission_final.csv\<close> and, when \<^verbatim>\<open>save_pred_arr_p\<close> is set,
  \<^verbatim>\<open>predicted_probability_masks.npy\<close>.
\<close>

record stage2_output =
  submission_final :: dataframe
  predicted_probability_masks :: "ndarray option"

text \<open>
  \<^verbatim>\<open>df.loc[df["ImageId"] == id_, "EncodedPixels"] = rle\<close> (line 134) and
  \<^verbatim>\<open>df.loc[df.EncodedPixels == "", "EncodedPixels"] = "-1"\<close> (line 136).
\<close>

definition loc_assign :: "dataframe \<Rightarrow> string \<Rightarrow> string \<Rightarrow> dataframe" where
  "loc_assign df pid rle = map (\<lambda>(i, c). (i, if i = pid then StrCell rle else c)) df"

definition blank_to_negative :: "dataframe \<Rightarrow> dataframe" where
  "blank_to_negative df = map (\<lambda>(i, c). (i, if c = StrCell [] then StrCell ''-1'' else c)) df"

text \<open>
  \<^verbatim>\<open>edit_classification_df\<close>: the encodings are computed first, always with the
  dimensions 1024 by 1024; \<^verbatim>\<open>zip\<close> stops at the shorter of its two lists.
\<close>

definition edit_classification_df ::
  "(ndarray \<Rightarrow> nat \<Rightarrow> nat \<Rightarrow> error + string) \<Rightarrow> dataframe \<Rightarrow> ndarray \<Rightarrow> string list
     \<Rightarrow> error + dataframe" where
  "edit_classification_df mask2rle_fn df preds_seg p_ids =
     ebind (np_iter preds_seg) (\<lambda>preds.
     ebind (sequence_err (map (\<lambda>pred. mask2rle_fn pred 1024 1024) preds)) (\<lambda>rles.
       Inr (blank_to_negative
              (foldl (\<lambda>d (pid, rle). loc_assign d pid rle) df (zip p_ids rles)))))"

text \<open>
  \<^verbatim>\<open>Stage2\<close> in three steps. Lines 43 to 46 select: the identifiers whose cell is the
  int \<open>1\<close>, sorted; the file paths whose stem is one of them, sorted as paths; the
  assertion that the stems of those paths, in that order, are the sorted identifiers.
\<close>

definition Stage2_select ::
  "(string \<Rightarrow> string) \<Rightarrow> dataframe \<Rightarrow> string list \<Rightarrow> error + string list \<times> string list" where
  "Stage2_select stem_fn sub_df test_fpaths =
     (let seg_ids = sort (map fst (filter (\<lambda>(i, c). c = IntCell 1) sub_df));
          x_test_fpaths = sort (filter (\<lambda>fpath. stem_fn fpath \<in> set seg_ids) test_fpaths);
          x_test_ids_from_fpaths = map stem_fn x_test_fpaths
      in if x_test_ids_from_fpaths = seg_ids then Inr (seg_ids, x_test_fpaths)
         else Inl AssertionError)"

text \<open>
  Lines 39 and 47 to 58 load, preprocess, predict and post-process. The result keeps the
  selected identifiers, the raw predictions of line 50 and the post-processed ones of
  line 58.
\<close>

definition Stage2_masks ::
  "collaborators \<Rightarrow> seg_model \<Rightarrow> dataframe \<Rightarrow> string list \<Rightarrow> nat \<Rightarrow> nat \<Rightarrow> nat \<Rightarrow> bool
     \<Rightarrow> real \<Rightarrow> nat \<Rightarrow> (ndarray \<Rightarrow> error + ndarray) option
     \<Rightarrow> error + string list \<times> ndarray \<times> ndarray" where
  "Stage2_masks C seg_model sub_df test_fpaths channels img_size batch_size tta threshold
       min_roi_size preprocess_fn =
     (let preprocess = (case preprocess_fn of None \<Rightarrow> preprocess_input C | Some f \<Rightarrow> f) in
      ebind (Stage2_select (stem C) sub_df test_fpaths) (\<lambda>(seg_ids, x_test_fpaths).
      ebind (sequence_err (map (\<lambda>fpath. load_input C fpath img_size channels) x_test_fpaths))
        (\<lambda>imgs.
      ebind (np_asarray imgs) (\<lambda>x_test.
      ebind (preprocess x_test) (\<lambda>x_test.
      ebind (run_seg_prediction x_test seg_model batch_size tta) (\<lambda>preds_seg.
      ebind (post_process_all C preds_seg threshold min_roi_size) (\<lambda>post.
        Inr (seg_ids, preds_seg, post))))))))"

text \<open>
  Lines 52 to 61: the raw predictions are saved when asked, the table is edited and
  written. When a later step raises, the result is the exception alone, although the
  file of line 54 may already be on disk.
\<close>

definition Stage2 ::
  "collaborators \<Rightarrow> seg_model \<Rightarrow> dataframe \<Rightarrow> string list \<Rightarrow> nat \<Rightarrow> nat \<Rightarrow> nat \<Rightarrow> bool
     \<Rightarrow> real \<Rightarrow> bool \<Rightarrow> nat \<Rightarrow> (ndarray \<Rightarrow> error + ndarray) option
     \<Rightarrow> error + stage2_output" where
  "Stage2 C seg_model sub_df test_fpaths channels img_size batch_size tta threshold
       save_pred_arr_p min_roi_size preprocess_fn =
     ebind (Stage2_masks C seg_model sub_df test_fpaths channels img_size batch_size tta
              threshold min_roi_size preprocess_fn) (\<lambda>(seg_ids, preds_seg, post).
     ebind (edit_classification_df (mask2rle C) sub_df post seg_ids) (\<lambda>df.
       Inr \<lparr>submission_final = df,
            predicted_probability_masks = (if save_pred_arr_p then Some preds_seg else None)\<rparr>))"

section \<open>The post-processor's threshold\<close>

text \<open>
  Modelled from the spec: \<^verbatim>\<open>post_process_single\<close> and \<^verbatim>\<open>post_process_all\<close>
  live in \<^verbatim>\<open>efficientnet_seg/inference/utils.py\<close>, which is not among the sources.
  The specification (4.2) fixes the threshold step:
  \<open>binary_mask[i,j] = 1 if mask[i,j] > threshold else 0\<close>.
\<close>

definition binarize :: "ndarray \<Rightarrow> real \<Rightarrow> ndarray" where
  "binarize probs threshold =
     probs\<lparr>data := map (\<lambda>v. if v > threshold then 1 else 0) (data probs)\<rparr>"

section \<open>The mask codec\<close>

text \<open>
  Modelled from the spec: \<^verbatim>\<open>mask2rle\<close> and \<^verbatim>\<open>rle2mask\<close> live in
  \<^verbatim>\<open>efficientnet_seg/inference/mask_functions.py\<close>, which is not among the sources.
  What follows is the contract of specification 4.3: the mask is scanned column by
  column; a run is a maximal sequence of foreground pixels in that order; the encoding is
  the runs in order, each as start offset (from 0) and length, in decimal, separated by
  single spaces; the mask without foreground encodes to \<open>"-1"\<close>, which the decoder
  recognises before it parses numbers; a token that is not a number is reported
  (EncodingAmbiguity).
\<close>

text \<open>
  Modelled from the spec: the numbers of an encoding are decimal numerals, and its tokens
  are separated by single spaces.
\<close>

definition digit_char :: "nat \<Rightarrow> char" where
  "digit_char d = char_of (48 + d)"

definition is_digit :: "char \<Rightarrow> bool" where
  "is_digit c = (48 \<le> (of_char c :: nat) \<and> (of_char c :: nat) \<le> 57)"

definition digit_val :: "char \<Rightarrow> nat" where
  "digit_val c = of_char c - 48"

function show_nat :: "nat \<Rightarrow> string" where
  "show_nat n = (if n < 10 then [digit_char n] else show_nat (n div 10) @ [digit_char (n mod 10)])"
  by pat_completeness auto
termination
  by (relation "measure id") auto

definition parse_nat :: "string \<Rightarrow> nat option" where
  "parse_nat s =
     (if s \<noteq> [] \<and> list_all is_digit s
      then Some (foldl (\<lambda>a c. 10 * a + digit_val c) 0 s) else None)"

fun join_spaces :: "string list \<Rightarrow> string" where
  "join_spaces [] = []"
| "join_spaces [w] = w"
| "join_spaces (w # ws) = w @ CHR '' '' # join_spaces ws"

definition split_spaces :: "string \<Rightarrow> string list" where
  "split_spaces s =
     foldr (\<lambda>c acc. if c = CHR '' '' then [] # acc else (c # hd acc) # tl acc) s [[]]"

fun pair_up :: "nat list \<Rightarrow> (nat \<times> nat) list option" where
  "pair_up [] = Some []"
| "pair_up [x] = None"
| "pair_up (x # y # zs) = map_option (\<lambda>ps. (x, y) # ps) (pair_up zs)"

text \<open>
  Modelled from the spec: a binary mask of the declared height and width, and its pixels
  in column-major order
  (position \<open>p\<close> is row \<open>p mod height\<close> of column \<open>p div height\<close>), foreground as
  \<open>True\<close>.
\<close>

definition valid_mask :: "ndarray \<Rightarrow> nat \<Rightarrow> nat \<Rightarrow> bool" where
  "valid_mask m height width =
     (shape m = [height, width] \<and> length (data m) = height * width
      \<and> list_all (\<lambda>v. v = 0 \<or> v = 1) (data m))"

definition column_major_scan :: "ndarray \<Rightarrow> nat \<Rightarrow> nat \<Rightarrow> bool list" where
  "column_major_scan m height width =
     map (\<lambda>p. data m ! ((p mod height) * width + p div height) = 1) [0..<height * width]"

text \<open>
  Modelled from the spec: the runs of a scan that starts at offset \<open>p\<close>. A foreground
  pixel opens a run, which takes every foreground pixel that follows it directly. The
  encoding is \<open>"-1"\<close> when there is no run.
\<close>

function find_runs :: "nat \<Rightarrow> bool list \<Rightarrow> (nat \<times> nat) list" where
  "find_runs p [] = []"
| "find_runs p (False # bs) = find_runs (Suc p) bs"
| "find_runs p (True # bs) =
     (p, Suc (length (takeWhile id bs)))
       # find_runs (Suc p + length (takeWhile id bs)) (dropWhile id bs)"
  by pat_completeness auto
termination
  by (relation "measure (\<lambda>(p, bs). length bs)") (auto simp: length_dropWhile_le less_Suc_eq_le)

definition rle_string :: "(nat \<times> nat) list \<Rightarrow> string" where
  "rle_string rs =
     (if rs = [] then ''-1''
      else join_spaces (concat (map (\<lambda>(s, l). [show_nat s, show_nat l]) rs)))"

definition mask_to_rle :: "ndarray \<Rightarrow> nat \<Rightarrow> nat \<Rightarrow> string" where
  "mask_to_rle m height width = rle_string (find_runs 0 (column_major_scan m height width))"

text \<open>
  Modelled from the spec: decoding. The sentinel \<open>"-1"\<close> is recognised first; otherwise
  every token must be a numeral and the numerals must pair up; a pixel is foreground when
  its scan position lies in a run.
\<close>

definition in_runs :: "(nat \<times> nat) list \<Rightarrow> nat \<Rightarrow> bool" where
  "in_runs rs q = list_ex (\<lambda>(s, l). s \<le> q \<and> q < s + l) rs"

definition parse_rle :: "string \<Rightarrow> error + (nat \<times> nat) list" where
  "parse_rle enc =
     (let nums = map parse_nat (split_spaces enc) in
      if list_all (\<lambda>n. n \<noteq> None) nums
      then (case pair_up (map the nums) of
              Some rs \<Rightarrow> Inr rs
            | None \<Rightarrow> Inl (ExternalError ''EncodingAmbiguity''))
      else Inl (ExternalError ''EncodingAmbiguity''))"

definition mask_of_runs :: "(nat \<times> nat) list \<Rightarrow> nat \<Rightarrow> nat \<Rightarrow> ndarray" where
  "mask_of_runs rs height width =
     \<lparr>shape = [height, width],
      data = map (\<lambda>i. if in_runs rs ((i mod width) * height + i div width) then 1 else 0)
                 [0..<height * width]\<rparr>"

definition rle_to_mask :: "string \<Rightarrow> nat \<Rightarrow> nat \<Rightarrow> error + ndarray" where
  "rle_to_mask enc height width =
     (if enc = ''-1'' then Inr (mask_of_runs [] height width)
      else ebind (parse_rle enc) (\<lambda>rs. Inr (mask_of_runs rs height width)))"

text \<open>
  A run \<open>(s, l)\<close> is maximal in a scan when it is not empty, lies within the scan,
  covers foreground only, and has background or the border on either side.
  \<open>run_at\<close> is the same for a scan that starts at offset \<open>p\<close>, where nothing is known of
  the pixel before the scan.
\<close>

definition maximal_run :: "bool list \<Rightarrow> nat \<times> nat \<Rightarrow> bool" where
  "maximal_run bits r =
     (case r of (s, l) \<Rightarrow>
        0 < l \<and> s + l \<le> length bits \<and> list_all (\<lambda>q. bits ! q) [s..<s + l]
        \<and> (s = 0 \<or> \<not> bits ! (s - 1)) \<and> (s + l = length bits \<or> \<not> bits ! (s + l)))"

definition run_at :: "nat \<Rightarrow> bool list \<Rightarrow> nat \<Rightarrow> nat \<Rightarrow> bool" where
  "run_at p bs s l =
     (0 < l \<and> p \<le> s \<and> s + l \<le> p + length bs
      \<and> (\<forall>q. s \<le> q \<and> q < s + l \<longrightarrow> bs ! (q - p))
      \<and> (s + l < p + length bs \<longrightarrow> \<not> bs ! (s + l - p))
      \<and> (p < s \<longrightarrow> \<not> bs ! (s - 1 - p)))"

section \<open>Notions used in the statements\<close>

text \<open>
  The element-wise arithmetic mean of two arrays, and the effect of
  \<^verbatim>\<open>np.fliplr\<close> on the buffer of one image (\<open>h\<close> rows of \<open>w\<close> pixels of \<open>k\<close>
  values) and of a batch of \<open>n\<close> images.
\<close>

definition elementwise_mean :: "ndarray \<Rightarrow> ndarray \<Rightarrow> ndarray" where
  "elementwise_mean a b =
     \<lparr>shape = shape a, data = map (\<lambda>(u, v). (u + v) / 2) (zip (data a) (data b))\<rparr>"

definition flip_buffer :: "nat \<Rightarrow> nat \<Rightarrow> nat \<Rightarrow> 'a list \<Rightarrow> 'a list" where
  "flip_buffer h w k d =
     concat (map (\<lambda>row. concat (rev (blocks w k row))) (blocks h (w * k) d))"

definition flip_images :: "nat \<Rightarrow> nat \<Rightarrow> nat \<Rightarrow> nat \<Rightarrow> 'a list \<Rightarrow> 'a list" where
  "flip_images n h w k d = concat (map (flip_buffer h w k) (blocks n (h * (w * k)) d))"

section \<open>Example inputs\<close>

text \<open>
  Concrete models, collaborators and tables, on which the statements below are
  evaluated. \<open>first_channel_model\<close> returns the first channel of every pixel (it commutes
  with the horizontal flip), \<open>ramp_model\<close> weights it by the pixel's position (it does
  not), \<open>const_model v\<close> predicts \<open>v\<close> everywhere, \<open>rank4_model\<close> rejects, as Keras
  does, a batch that has not four axes, and \<open>lenient_model\<close> answers such a batch with
  an empty prediction. \<open>drop_last_model\<close> predicts for every image of the batch but the
  last, and \<open>raising_model msg\<close> raises with the message \<open>msg\<close>. \<open>posix_stem\<close> is pathlib's \<^verbatim>\<open>stem\<close> on a POSIX path
  without a trailing slash. The example loader paints an image 1 when the stem contains
  the letter c and 0 otherwise; the example post-processor only thresholds; the example
  encoder returns a blank string for a mask without foreground and a fixed string
  otherwise, and \<open>strict_mask2rle\<close> is the same encoder that raises at any dimensions
  other than 1024 by 1024.
\<close>

definition first_channel_model :: model where
  "first_channel_model x batch_size =
     Inr \<lparr>shape = butlast (shape x) @ [1],
          data = map (\<lambda>i. data x ! (i * last (shape x))) [0..<prod_list (butlast (shape x))]\<rparr>"

definition ramp_model :: model where
  "ramp_model x batch_size =
     Inr \<lparr>shape = butlast (shape x) @ [1],
          data = map (\<lambda>i. real i * data x ! (i * last (shape x)))
                     [0..<prod_list (butlast (shape x))]\<rparr>"

definition const_model :: "real \<Rightarrow> model" where
  "const_model v x batch_size =
     Inr \<lparr>shape = butlast (shape x) @ [1],
          data = replicate (prod_list (butlast (shape x))) v\<rparr>"

definition rank4_model :: model where
  "rank4_model x batch_size =
     (if length (shape x) = 4 then first_channel_model x batch_size
      else Inl (ExternalError ''expected input to have 4 dimensions''))"

definition lenient_model :: model where
  "lenient_model x batch_size =
     (if length (shape x) = 4 then first_channel_model x batch_size
      else Inr \<lparr>shape = [0], data = []\<rparr>)"

definition drop_last_model :: model where
  "drop_last_model x batch_size =
     (case shape x of
        [] \<Rightarrow> Inl (ExternalError ''expected a batch'')
      | n # s \<Rightarrow>
          first_channel_model
            \<lparr>shape = (n - 1) # s, data = take ((n - 1) * prod_list s) (data x)\<rparr> batch_size)"


definition posix_stem :: "string \<Rightarrow> string" where
  "posix_stem fpath =
     (let name = rev (takeWhile (\<lambda>c. c \<noteq> CHR ''/'') (rev fpath));
          i = length name - 1 - length (takeWhile (\<lambda>c. c \<noteq> CHR ''.'') (rev name))
      in if CHR ''.'' \<in> set name \<and> 0 < i \<and> i < length name - 1 then take i name else name)"

definition example_load_input :: "string \<Rightarrow> nat \<Rightarrow> nat \<Rightarrow> error + ndarray" where
  "example_load_input fpath img_size channels =
     Inr \<lparr>shape = [img_size, img_size, channels],
          data = replicate (img_size * img_size * channels)
                   (if CHR ''c'' \<in> set (posix_stem fpath) then 1 else 0)\<rparr>"

definition example_mask2rle :: "ndarray \<Rightarrow> nat \<Rightarrow> nat \<Rightarrow> error + string" where
  "example_mask2rle m height width =
     Inr (if list_all (\<lambda>v. v = 0) (data m) then [] else ''0 4'')"

definition strict_mask2rle :: "ndarray \<Rightarrow> nat \<Rightarrow> nat \<Rightarrow> error + string" where
  "strict_mask2rle m height width =
     (if height = 1024 \<and> width = 1024 then example_mask2rle m height width
      else Inl (ExternalError ''unexpected dimensions''))"

definition example_collaborators :: collaborators where
  "example_collaborators =
     \<lparr>stem = posix_stem,
      load_input = example_load_input,
      preprocess_input = Inr,
      post_process_all = (\<lambda>preds threshold min_size. Inr (binarize preds threshold)),
      mask2rle = example_mask2rle\<rparr>"

definition example_df :: dataframe where
  "example_df = [(''a'', IntCell 1), (''b'', IntCell (- 1)), (''c'', IntCell 1)]"

section \<open>Lemmas on buffers and arrays\<close>

lemmas runner_defs =
  run_seg_prediction_def TTA_Segmentation_All_def fliplr_all_def np_iter_def np_fliplr_def
  np_asarray_def np_stack_def np_mean_axis0_def np_squeeze_def blocks_def ebind_def
  wf_ndarray_def elementwise_mean_def

lemma length_blocks [simp]: "length (blocks n k xs) = n"
  by (simp add: blocks_def)

lemma blocks_0 [simp]: "blocks 0 k xs = []"
  by (simp add: blocks_def)

lemma blocks_Suc: "blocks (Suc n) k xs = take k xs # blocks n k (drop k xs)"
proof -
  have "[0..<Suc n] = 0 # map Suc [0..<n]"
    by (simp add: upt_conv_Cons map_Suc_upt del: upt_Suc)
  then show ?thesis
    by (simp add: blocks_def comp_def add.commute del: upt_Suc)
qed

lemma concat_blocks: "length xs = n * k \<Longrightarrow> concat (blocks n k xs) = xs"
proof (induction n arbitrary: xs)
  case 0
  then show ?case by simp
next
  case (Suc n)
  then have "length (drop k xs) = n * k" by simp
  with Suc.IH have "concat (blocks n k (drop k xs)) = drop k xs" by blast
  then show ?case by (simp add: blocks_Suc)
qed

lemma blocks_concat:
  "length xss = n \<Longrightarrow> list_all (\<lambda>ys. length ys = k) xss \<Longrightarrow> blocks n k (concat xss) = xss"
proof (induction xss arbitrary: n)
  case Nil
  then show ?case by simp
next
  case (Cons ys xss)
  then obtain m where n: "n = Suc m" and m: "length xss = m" by (cases n) auto
  from Cons.prems have "length ys = k" and "list_all (\<lambda>ys. length ys = k) xss" by simp_all
  with Cons.IH [OF m] show ?case by (simp add: n blocks_Suc)
qed

lemma list_all_length_blocks:
  "length xs = n * k \<Longrightarrow> list_all (\<lambda>ys. length ys = k) (blocks n k xs)"
proof (induction n arbitrary: xs)
  case 0
  then show ?case by simp
next
  case (Suc n)
  then have "length (drop k xs) = n * k" by simp
  with Suc.IH have "list_all (\<lambda>ys. length ys = k) (blocks n k (drop k xs))" by blast
  with Suc.prems show ?case by (simp add: blocks_Suc)
qed

lemma length_concat_const:
  "list_all (\<lambda>ys. length ys = k) xss \<Longrightarrow> length (concat xss) = length xss * k"
  by (induction xss) simp_all

lemma flip_row_length: "length row = w * k \<Longrightarrow> length (concat (rev (blocks w k row))) = w * k"
proof -
  assume "length row = w * k"
  then have "list_all (\<lambda>ys. length ys = k) (rev (blocks w k row))"
    using list_all_length_blocks [of row w k] by (simp add: list_all_iff)
  then show ?thesis
    using length_concat_const [of k "rev (blocks w k row)"] by simp
qed

lemma flip_row_invol:
  assumes "length row = w * k"
  shows "concat (rev (blocks w k (concat (rev (blocks w k row))))) = row"
proof -
  have "list_all (\<lambda>ys. length ys = k) (rev (blocks w k row))"
    using list_all_length_blocks [OF assms] by (simp add: list_all_iff)
  then have "blocks w k (concat (rev (blocks w k row))) = rev (blocks w k row)"
    by (intro blocks_concat) simp_all
  then show ?thesis by (simp add: concat_blocks [OF assms])
qed

lemma flip_buffer_length:
  assumes "length d = h * (w * k)"
  shows "length (flip_buffer h w k d) = h * (w * k)"
proof -
  have rows: "list_all (\<lambda>ys. length ys = w * k) (blocks h (w * k) d)"
    by (rule list_all_length_blocks [OF assms])
  then have "list_all (\<lambda>ys. length ys = w * k)
      (map (\<lambda>row. concat (rev (blocks w k row))) (blocks h (w * k) d))"
    by (simp add: list_all_iff concat_blocks)
  then show ?thesis
    unfolding flip_buffer_def using length_concat_const by fastforce
qed

lemma flip_buffer_invol:
  assumes "length d = h * (w * k)"
  shows "flip_buffer h w k (flip_buffer h w k d) = d"
proof -
  let ?f = "\<lambda>row. concat (rev (blocks w k row))"
  have rows: "list_all (\<lambda>ys. length ys = w * k) (blocks h (w * k) d)"
    by (rule list_all_length_blocks [OF assms])
  then have "list_all (\<lambda>ys. length ys = w * k) (map ?f (blocks h (w * k) d))"
    by (simp add: list_all_iff concat_blocks)
  then have "blocks h (w * k) (concat (map ?f (blocks h (w * k) d))) = map ?f (blocks h (w * k) d)"
    by (intro blocks_concat) simp_all
  moreover have "map ?f (map ?f (blocks h (w * k) d)) = blocks h (w * k) d"
    using rows by (simp add: list_all_iff flip_row_invol map_idI)
  ultimately show ?thesis
    by (simp add: flip_buffer_def concat_blocks [OF assms])
qed

lemma np_fliplr_eq:
  "shape x = h # w # r \<Longrightarrow> np_fliplr x = Inr (x\<lparr>data := flip_buffer h w (prod_list r) (data x)\<rparr>)"
  by (simp add: np_fliplr_def flip_buffer_def)

lemma sequence_err_map_Inr:
  "list_all (\<lambda>x. f x = Inr (g x)) xs \<Longrightarrow> sequence_err (map f xs) = Inr (map g xs)"
  by (induction xs) simp_all

lemma sequence_err_map_Inr_id: "sequence_err (map Inr xs) = Inr xs"
  by (induction xs) simp_all

lemma sequence_err_InrD: "sequence_err rs = Inr xs \<Longrightarrow> rs = map Inr xs"
  by (induction rs arbitrary: xs) (auto split: sum.splits)

lemma ebind_Inr_iff: "ebind m f = Inr y \<longleftrightarrow> (\<exists>x. m = Inr x \<and> f x = Inr y)"
  by (cases m) (simp_all add: ebind_def)

lemma ebind_Inl: "m = Inl e \<Longrightarrow> ebind m f = Inl e"
  by (simp add: ebind_def)

lemma fliplr_all_eq:
  assumes "shape a = n # h # w # r" and "0 < n"
  shows "fliplr_all a = Inr (a\<lparr>data := flip_images n h w (prod_list r) (data a)\<rparr>)"
proof -
  let ?k = "prod_list r"
  let ?xs = "map (\<lambda>d. \<lparr>shape = h # w # r, data = d\<rparr>) (blocks n (h * (w * ?k)) (data a))"
  let ?g = "\<lambda>x. x\<lparr>data := flip_buffer h w ?k (data x)\<rparr>"
  have it: "np_iter a = Inr ?xs"
    using assms by (simp add: np_iter_def)
  have "list_all (\<lambda>x. np_fliplr x = Inr (?g x)) ?xs"
    by (simp add: list_all_iff np_fliplr_eq)
  then have sq: "sequence_err (map np_fliplr ?xs) = Inr (map ?g ?xs)"
    by (rule sequence_err_map_Inr)
  from \<open>0 < n\<close> obtain m where n: "n = Suc m" by (cases n) auto
  have ne: "map ?g ?xs \<noteq> []" using n by (simp add: blocks_Suc)
  have "np_asarray (map ?g ?xs)
      = Inr \<lparr>shape = n # h # w # r, data = concat (map data (map ?g ?xs))\<rparr>"
    using ne by (cases "map ?g ?xs") (auto simp: np_asarray_def list_all_iff n blocks_Suc)
  moreover have "concat (map data (map ?g ?xs)) = flip_images n h w ?k (data a)"
    by (simp add: flip_images_def comp_def)
  moreover have "\<lparr>shape = n # h # w # r, data = flip_images n h w ?k (data a)\<rparr>
      = a\<lparr>data := flip_images n h w ?k (data a)\<rparr>"
    using assms by (cases a) simp
  moreover have "fliplr_all a = np_asarray (map ?g ?xs)"
    by (simp only: fliplr_all_def ebind_def it sq sum.case)
  ultimately show ?thesis by simp
qed

lemma flip_images_length:
  assumes "length d = n * (h * (w * k))"
  shows "length (flip_images n h w k d) = n * (h * (w * k))"
proof -
  have "list_all (\<lambda>ys. length ys = h * (w * k)) (blocks n (h * (w * k)) d)"
    by (rule list_all_length_blocks [OF assms])
  then have "list_all (\<lambda>ys. length ys = h * (w * k))
      (map (flip_buffer h w k) (blocks n (h * (w * k)) d))"
    by (simp add: list_all_iff flip_buffer_length)
  then show ?thesis
    unfolding flip_images_def using length_concat_const by fastforce
qed

lemma flip_images_invol:
  assumes "length d = n * (h * (w * k))"
  shows "flip_images n h w k (flip_images n h w k d) = d"
proof -
  let ?B = "blocks n (h * (w * k)) d"
  have imgs: "list_all (\<lambda>ys. length ys = h * (w * k)) ?B"
    by (rule list_all_length_blocks [OF assms])
  then have "list_all (\<lambda>ys. length ys = h * (w * k)) (map (flip_buffer h w k) ?B)"
    by (simp add: list_all_iff flip_buffer_length)
  then have "blocks n (h * (w * k)) (concat (map (flip_buffer h w k) ?B))
      = map (flip_buffer h w k) ?B"
    by (intro blocks_concat) simp_all
  moreover have "map (flip_buffer h w k) (map (flip_buffer h w k) ?B) = ?B"
    using imgs by (simp add: list_all_iff flip_buffer_invol map_idI)
  ultimately show ?thesis
    by (simp add: flip_images_def concat_blocks [OF assms])
qed

lemma np_mean_axis0_stacked:
  assumes "as \<noteq> []" and "list_all (\<lambda>b. shape b = s \<and> wf_ndarray b) as"
  shows "np_mean_axis0 \<lparr>shape = length as # s, data = concat (map data as)\<rparr>
       = Inr \<lparr>shape = s,
              data = map (\<lambda>j. sum_list (map (\<lambda>b. data b ! j) as) / real (length as))
                         [0..<prod_list s]\<rparr>"
proof -
  have "list_all (\<lambda>ys. length ys = prod_list s) (map data as)"
    using assms(2) by (simp add: list_all_iff wf_ndarray_def)
  then have "blocks (length as) (prod_list s) (concat (map data as)) = map data as"
    by (intro blocks_concat) simp_all
  then show ?thesis
    using assms(1) by (simp add: np_mean_axis0_def comp_def)
qed

lemma np_mean_axis0_pair:
  assumes "wf_ndarray p" and "wf_ndarray q" and "shape q = shape p"
  shows "ebind (np_asarray [p, q]) np_mean_axis0 = Inr (elementwise_mean p q)"
proof -
  have "np_asarray [p, q] = Inr \<lparr>shape = length [p, q] # shape p, data = concat (map data [p, q])\<rparr>"
    using assms(3) by (simp add: np_asarray_def)
  moreover have "np_mean_axis0 \<lparr>shape = length [p, q] # shape p, data = concat (map data [p, q])\<rparr>
      = Inr \<lparr>shape = shape p,
             data = map (\<lambda>j. sum_list (map (\<lambda>b. data b ! j) [p, q]) / real (length [p, q]))
                        [0..<prod_list (shape p)]\<rparr>"
    using assms by (intro np_mean_axis0_stacked) simp_all
  moreover have "map (\<lambda>j. sum_list (map (\<lambda>b. data b ! j) [p, q]) / real (length [p, q]))
                        [0..<prod_list (shape p)]
      = map (\<lambda>(u, v). (u + v) / 2) (zip (data p) (data q))"
    using assms by (intro nth_equalityI) (simp_all add: wf_ndarray_def)
  ultimately show ?thesis
    by (simp only: ebind_def sum.case elementwise_mean_def)
qed

lemma np_mean_axis0_single:
  assumes "wf_ndarray p"
  shows "ebind (np_stack [p]) np_mean_axis0 = Inr p"
proof -
  have "np_stack [p] = Inr \<lparr>shape = length [p] # shape p, data = concat (map data [p])\<rparr>"
    by (simp add: np_stack_def)
  moreover have "np_mean_axis0 \<lparr>shape = length [p] # shape p, data = concat (map data [p])\<rparr>
      = Inr \<lparr>shape = shape p,
             data = map (\<lambda>j. sum_list (map (\<lambda>b. data b ! j) [p]) / real (length [p]))
                        [0..<prod_list (shape p)]\<rparr>"
    using assms by (intro np_mean_axis0_stacked) simp_all
  moreover have "map (\<lambda>j. sum_list (map (\<lambda>b. data b ! j) [p]) / real (length [p]))
                        [0..<prod_list (shape p)] = data p"
    using assms by (intro nth_equalityI) (simp_all add: wf_ndarray_def)
  ultimately show ?thesis
    by (simp only: ebind_def sum.case) simp
qed

lemma np_mean_axis0_wf: "np_mean_axis0 a = Inr b \<Longrightarrow> wf_ndarray b"
  by (auto simp: np_mean_axis0_def wf_ndarray_def split: list.splits if_splits)

lemma TTA_Segmentation_All_wf: "TTA_Segmentation_All m x bs = Inr p \<Longrightarrow> wf_ndarray p"
  by (auto simp: TTA_Segmentation_All_def ebind_def split: sum.splits dest: np_mean_axis0_wf)

lemma elementwise_mean_same:
  "wf_ndarray p \<Longrightarrow> elementwise_mean p p = p"
  by (cases p) (simp add: elementwise_mean_def zip_same_conv_map comp_def)

section \<open>Lemmas on the selection phase\<close>

lemma sort_map_sort: "sort (map f (sort xs)) = sort (map f (xs :: 'a :: linorder list))"
  by (rule properties_for_sort) simp_all

lemma Stage2_select_Inr:
  assumes "Stage2_select st df fps = Inr (ids, paths)"
  shows "ids = sort (map fst (filter (\<lambda>(i, c). c = IntCell 1) df))"
    and "paths = sort (filter (\<lambda>fpath. st fpath
            \<in> set (sort (map fst (filter (\<lambda>(i, c). c = IntCell 1) df)))) fps)"
    and "map st paths = ids"
  using assms by (auto simp: Stage2_select_def Let_def split: if_splits)

lemma Stage2_select_mismatch:
  assumes "sort (map st (filter (\<lambda>fpath. st fpath
              \<in> set (sort (map fst (filter (\<lambda>(i, c). c = IntCell 1) df)))) fps))
           \<noteq> sort (map fst (filter (\<lambda>(i, c). c = IntCell 1) df))"
  shows "Stage2_select st df fps = Inl AssertionError"
proof -
  let ?ids = "sort (map fst (filter (\<lambda>(i, c). c = IntCell 1) df))"
  let ?paths = "filter (\<lambda>fpath. st fpath \<in> set ?ids) fps"
  have "map st (sort ?paths) \<noteq> ?ids"
  proof
    assume eq: "map st (sort ?paths) = ?ids"
    have "sort (map st ?paths) = sort (map st (sort ?paths))"
      by (simp only: sort_map_sort)
    also have "\<dots> = sort ?ids" by (simp only: eq)
    also have "\<dots> = ?ids" by (simp add: sort_key_id_if_sorted)
    finally show False using assms by simp
  qed
  then show ?thesis
    by (simp add: Stage2_select_def Let_def)
qed

lemma Stage2_select_abort:
  assumes "Stage2_select (stem C) df fps = Inl e"
  shows "Stage2 C seg_model df fps channels img_size batch_size tta threshold save_pred_arr_p
           min_roi_size preprocess_fn = Inl e"
  using assms by (simp add: Stage2_def Stage2_masks_def ebind_def Let_def)

section \<open>Lemmas on the table edit\<close>

lemma loc_assign_fst [simp]: "map fst (loc_assign df pid rle) = map fst df"
  by (simp add: loc_assign_def comp_def case_prod_beta)

lemma loc_assign_nth:
  "k < length df \<Longrightarrow>
     loc_assign df pid rle ! k
       = (fst (df ! k), if fst (df ! k) = pid then StrCell rle else snd (df ! k))"
  by (simp add: loc_assign_def case_prod_beta)

lemma foldl_assign_fst:
  "map fst (foldl (\<lambda>d (pid, rle). loc_assign d pid rle) df prs) = map fst df"
  by (induction prs arbitrary: df) (simp_all add: case_prod_beta)

lemma foldl_assign_length:
  "length (foldl (\<lambda>d (pid, rle). loc_assign d pid rle) df prs) = length df"
  using foldl_assign_fst [of df prs] by (metis length_map)

lemma foldl_assign_nth:
  assumes "k < length df"
  shows "fst (foldl (\<lambda>d (pid, rle). loc_assign d pid rle) df prs ! k) = fst (df ! k)
    \<and> (fst (df ! k) \<in> fst ` set prs \<longrightarrow>
         (\<exists>r \<in> snd ` set prs.
            snd (foldl (\<lambda>d (pid, rle). loc_assign d pid rle) df prs ! k) = StrCell r))
    \<and> (fst (df ! k) \<notin> fst ` set prs \<longrightarrow>
         snd (foldl (\<lambda>d (pid, rle). loc_assign d pid rle) df prs ! k) = snd (df ! k))"
proof (induction prs rule: rev_induct)
  case Nil
  then show ?case by simp
next
  case (snoc pr prs)
  let ?d = "foldl (\<lambda>d (pid, rle). loc_assign d pid rle) df prs"
  have k: "k < length ?d" using assms by (simp add: foldl_assign_length)
  have step: "foldl (\<lambda>d (pid, rle). loc_assign d pid rle) df (prs @ [pr]) ! k
      = (fst (?d ! k), if fst (?d ! k) = fst pr then StrCell (snd pr) else snd (?d ! k))"
    using loc_assign_nth [OF k] by (simp add: case_prod_beta)
  show ?case
  proof (cases "fst (df ! k) = fst pr")
    case True
    with snoc step show ?thesis by auto
  next
    case False
    with snoc step show ?thesis by (auto simp: image_iff)
  qed
qed

lemma blank_to_negative_nth:
  "k < length df \<Longrightarrow>
     blank_to_negative df ! k
       = (fst (df ! k), if snd (df ! k) = StrCell [] then StrCell ''-1'' else snd (df ! k))"
  by (simp add: blank_to_negative_def case_prod_beta)

lemma blank_to_negative_fst [simp]: "map fst (blank_to_negative df) = map fst df"
  by (simp add: blank_to_negative_def comp_def case_prod_beta)

lemma edit_classification_df_Inr:
  assumes "edit_classification_df f df preds_seg p_ids = Inr df'"
  obtains masks rles where "np_iter preds_seg = Inr masks"
    and "map (\<lambda>pred. f pred 1024 1024) masks = map Inr rles"
    and "df' = blank_to_negative (foldl (\<lambda>d (pid, rle). loc_assign d pid rle) df (zip p_ids rles))"
  using assms
  by (auto simp: edit_classification_df_def ebind_Inr_iff dest: sequence_err_InrD)

lemma edit_classification_df_rows:
  assumes ed: "edit_classification_df f df preds_seg p_ids = Inr df'"
    and it: "np_iter preds_seg = Inr masks"
    and k: "k < length df"
  shows "fst (df' ! k) = fst (df ! k)"
    and "snd (df' ! k) \<noteq> StrCell []"
    and "fst (df ! k) \<in> set (take (length masks) p_ids) \<Longrightarrow>
           \<exists>pred \<in> set masks. \<exists>s. f pred 1024 1024 = Inr s
              \<and> snd (df' ! k) = StrCell (if s = [] then ''-1'' else s)"
    and "fst (df ! k) \<notin> set (take (length masks) p_ids) \<Longrightarrow>
           snd (df' ! k) = (if snd (df ! k) = StrCell [] then StrCell ''-1'' else snd (df ! k))"
proof -
  from ed it obtain rles where rl: "map (\<lambda>pred. f pred 1024 1024) masks = map Inr rles"
    and df': "df' = blank_to_negative
        (foldl (\<lambda>d (pid, rle). loc_assign d pid rle) df (zip p_ids rles))"
    by (auto elim!: edit_classification_df_Inr)
  let ?prs = "zip p_ids rles"
  let ?d = "foldl (\<lambda>d (pid, rle). loc_assign d pid rle) df ?prs"
  from rl have len: "length rles = length masks" by (metis length_map)
  have kd: "k < length ?d" using k by (simp add: foldl_assign_length)
  have fsts: "fst ` set ?prs = set (take (length masks) p_ids)"
  proof -
    have "map fst ?prs = take (min (length p_ids) (length rles)) p_ids"
      by (rule map_fst_zip_take)
    also have "\<dots> = take (length masks) p_ids" by (simp add: len min_def)
    finally have "map fst ?prs = take (length masks) p_ids" .
    then show ?thesis by (metis set_map)
  qed
  have snds: "\<exists>pred \<in> set masks. f pred 1024 1024 = Inr r" if "r \<in> snd ` set ?prs" for r
  proof -
    from that have "r \<in> set rles" by (auto dest: set_zip_rightD)
    then obtain j where j: "j < length rles" and r: "rles ! j = r" by (auto simp: in_set_conv_nth)
    from rl j have "f (masks ! j) 1024 1024 = Inr (rles ! j)"
      by (metis len length_map nth_map)
    with j r len show ?thesis by (metis nth_mem)
  qed
  note nth = foldl_assign_nth [OF k, of ?prs]
  show "fst (df' ! k) = fst (df ! k)"
    using nth by (simp add: df' blank_to_negative_nth [OF kd])
  show "snd (df' ! k) \<noteq> StrCell []"
    by (simp add: df' blank_to_negative_nth [OF kd])
  show "\<exists>pred \<in> set masks. \<exists>s. f pred 1024 1024 = Inr s
              \<and> snd (df' ! k) = StrCell (if s = [] then ''-1'' else s)"
    if "fst (df ! k) \<in> set (take (length masks) p_ids)"
  proof -
    from that nth fsts obtain r where r: "r \<in> snd ` set ?prs" and c: "snd (?d ! k) = StrCell r"
      by auto
    from snds [OF r] obtain pred where "pred \<in> set masks" "f pred 1024 1024 = Inr r" by blast
    moreover have "snd (df' ! k) = StrCell (if r = [] then ''-1'' else r)"
      by (simp add: df' blank_to_negative_nth [OF kd] c)
    ultimately show ?thesis by blast
  qed
  show "snd (df' ! k) = (if snd (df ! k) = StrCell [] then StrCell ''-1'' else snd (df ! k))"
    if "fst (df ! k) \<notin> set (take (length masks) p_ids)"
    using that nth fsts by (simp add: df' blank_to_negative_nth [OF kd])
qed

lemma edit_classification_df_fst:
  assumes "edit_classification_df f df preds_seg p_ids = Inr df'"
  shows "map fst df' = map fst df"
  using assms by (auto elim!: edit_classification_df_Inr simp: foldl_assign_fst)

lemma Stage2_Inr:
  assumes "Stage2 C m df fps ch sz bs tta thr save roi pp = Inr out"
  obtains ids raw post where
    "Stage2_masks C m df fps ch sz bs tta thr roi pp = Inr (ids, raw, post)"
    and "edit_classification_df (mask2rle C) df post ids = Inr (submission_final out)"
    and "predicted_probability_masks out = (if save then Some raw else None)"
  using assms by (auto simp: Stage2_def ebind_Inr_iff)

lemma Stage2_masks_Inr:
  assumes "Stage2_masks C m df fps ch sz bs tta thr roi pp = Inr (ids, raw, post)"
  obtains paths imgs batch x where
    "Stage2_select (stem C) df fps = Inr (ids, paths)"
    and "sequence_err (map (\<lambda>fpath. load_input C fpath sz ch) paths) = Inr imgs"
    and "np_asarray imgs = Inr batch"
    and "(case pp of None \<Rightarrow> preprocess_input C | Some f \<Rightarrow> f) batch = Inr x"
    and "run_seg_prediction x m bs tta = Inr raw"
    and "post_process_all C raw thr roi = Inr post"
  using assms by (auto simp: Stage2_masks_def ebind_Inr_iff Let_def)

lemma run_seg_prediction_single_shape:
  assumes "m x bs = Inr p"
  shows "run_seg_prediction x (Single m) bs False = Inr (np_squeeze p)"
    and "shape (np_squeeze p) = filter (\<lambda>d. d \<noteq> 1) (shape p)"
    and "data (np_squeeze p) = data p"
  using assms by (simp_all add: run_seg_prediction_def ebind_def np_squeeze_def)

lemma squeeze_keeps_shape_iff:
  "filter (\<lambda>d. d \<noteq> 1) [n, h, w, 1] = [n, h, w] \<longleftrightarrow> n \<noteq> 1 \<and> h \<noteq> 1 \<and> w \<noteq> 1"
  by auto

section \<open>Lemmas on the number of masks\<close>

text \<open>
  The shape of what the runner returns, and from it the number of masks the table edit
  sees, under the contracts the docstrings and the specification state: the loader returns
  images of shape \<open>(img_size, img_size, channels)\<close>, preprocessing and post-processing
  keep the shape, and a model predicts one single-channel mask per image.
\<close>

lemma squeeze_keeps_count:
  assumes "shape p = [n, h, w, 1]" and "0 < h" and "0 < w"
    and "np_iter (np_squeeze p) = Inr masks"
  shows "n \<le> length masks"
  using assms by (auto simp: np_iter_def np_squeeze_def split: list.splits if_splits)

lemma np_mean_axis0_shape:
  "np_mean_axis0 a = Inr r \<Longrightarrow> shape a = n # s \<Longrightarrow> shape r = s"
  by (auto simp: np_mean_axis0_def split: list.splits if_splits)

lemma TTA_Segmentation_All_shape:
  assumes "TTA_Segmentation_All m x bs = Inr r"
  obtains p where "m x bs = Inr p" and "shape r = shape p"
proof -
  from assms obtain p q a where p: "m x bs = Inr p" and a: "np_asarray [p, q] = Inr a"
    and r: "np_mean_axis0 a = Inr r"
    by (auto simp: TTA_Segmentation_All_def ebind_Inr_iff)
  from a have "shape a = 2 # shape p"
    by (auto simp: np_asarray_def split: if_splits)
  with r have "shape r = shape p" by (rule np_mean_axis0_shape)
  with p that show ?thesis by blast
qed

lemma stack_mean_shape:
  assumes "np_stack ps = Inr st" and "np_mean_axis0 st = Inr r"
  shows "ps \<noteq> [] \<and> shape r = shape (hd ps)"
proof -
  from assms(1) have ne: "ps \<noteq> []" and "shape st = length ps # shape (hd ps)"
    by (auto simp: np_stack_def split: list.splits if_splits)
  with assms(2) show ?thesis by (auto dest: np_mean_axis0_shape)
qed

lemma run_seg_prediction_Single_Inr:
  assumes "run_seg_prediction x (Single m) bs tta = Inr r"
  obtains q where "(if tta then TTA_Segmentation_All m x bs else m x bs) = Inr q"
    and "r = np_squeeze q"
proof (cases tta)
  case True
  with assms have "ebind (TTA_Segmentation_All m x bs) (\<lambda>p. Inr (np_squeeze p)) = Inr r"
    by (simp add: run_seg_prediction_def)
  then obtain q where "TTA_Segmentation_All m x bs = Inr q" "r = np_squeeze q"
    unfolding ebind_Inr_iff by auto
  with True that show ?thesis by simp
next
  case False
  with assms have "ebind (m x bs) (\<lambda>p. Inr (np_squeeze p)) = Inr r"
    by (simp add: run_seg_prediction_def)
  then obtain q where "m x bs = Inr q" "r = np_squeeze q"
    unfolding ebind_Inr_iff by auto
  with False that show ?thesis by simp
qed

lemma run_seg_prediction_Ensemble_Inr:
  assumes "run_seg_prediction x (Ensemble ms) bs tta = Inr r"
  obtains ps st q where
    "sequence_err (map (\<lambda>m. if tta then TTA_Segmentation_All m x bs else m x bs) ms) = Inr ps"
    and "np_stack ps = Inr st" and "np_mean_axis0 st = Inr q" and "r = np_squeeze q"
proof (cases tta)
  case True
  with assms have "ebind (sequence_err (map (\<lambda>m. TTA_Segmentation_All m x bs) ms)) (\<lambda>preds.
      ebind (np_stack preds) (\<lambda>stacked.
      ebind (np_mean_axis0 stacked) (\<lambda>p. Inr (np_squeeze p)))) = Inr r"
    by (simp add: run_seg_prediction_def)
  then obtain ps st q where "sequence_err (map (\<lambda>m. TTA_Segmentation_All m x bs) ms) = Inr ps"
    "np_stack ps = Inr st" "np_mean_axis0 st = Inr q" "r = np_squeeze q"
    unfolding ebind_Inr_iff by auto
  with True that show ?thesis by simp
next
  case False
  with assms have "ebind (sequence_err (map (\<lambda>m. m x bs) ms)) (\<lambda>preds.
      ebind (np_stack preds) (\<lambda>stacked.
      ebind (np_mean_axis0 stacked) (\<lambda>p. Inr (np_squeeze p)))) = Inr r"
    by (simp add: run_seg_prediction_def)
  then obtain ps st q where "sequence_err (map (\<lambda>m. m x bs) ms) = Inr ps"
    "np_stack ps = Inr st" "np_mean_axis0 st = Inr q" "r = np_squeeze q"
    unfolding ebind_Inr_iff by auto
  with False that show ?thesis by simp
qed

lemma prediction_shape:
  assumes "(if tta then TTA_Segmentation_All m x bs else m x bs) = Inr q"
    and "\<And>p. m x bs = Inr p \<Longrightarrow> shape p = s"
  shows "shape q = s"
proof (cases tta)
  case True
  with assms(1) have "TTA_Segmentation_All m x bs = Inr q" by simp
  then obtain p where "m x bs = Inr p" "shape q = shape p"
    by (rule TTA_Segmentation_All_shape)
  with assms(2) show ?thesis by simp
next
  case False
  with assms show ?thesis by simp
qed

lemma run_seg_prediction_shape_single:
  assumes "run_seg_prediction x (Single m) bs tta = Inr r"
    and "\<And>p. m x bs = Inr p \<Longrightarrow> shape p = s"
  shows "shape r = filter (\<lambda>d. d \<noteq> 1) s"
proof -
  from assms(1) obtain q where q: "(if tta then TTA_Segmentation_All m x bs else m x bs) = Inr q"
    and r: "r = np_squeeze q"
    by (rule run_seg_prediction_Single_Inr)
  from q assms(2) have "shape q = s" by (rule prediction_shape)
  with r show ?thesis by (simp add: np_squeeze_def)
qed

lemma run_seg_prediction_shape_ensemble:
  assumes "run_seg_prediction x (Ensemble ms) bs tta = Inr r"
    and "\<And>m p. m \<in> set ms \<Longrightarrow> m x bs = Inr p \<Longrightarrow> shape p = s"
  shows "shape r = filter (\<lambda>d. d \<noteq> 1) s"
proof -
  let ?f = "\<lambda>m. if tta then TTA_Segmentation_All m x bs else m x bs"
  from assms(1) obtain ps st q where sq: "sequence_err (map ?f ms) = Inr ps"
    and st: "np_stack ps = Inr st" and q: "np_mean_axis0 st = Inr q" and r: "r = np_squeeze q"
    by (rule run_seg_prediction_Ensemble_Inr)
  from st q have ne: "ps \<noteq> []" and sh: "shape q = shape (hd ps)"
    using stack_mean_shape by blast+
  from sq have mp: "map ?f ms = map Inr ps" by (rule sequence_err_InrD)
  from ne obtain p ps' where ps: "ps = p # ps'" by (cases ps) auto
  with mp obtain m ms' where ms: "ms = m # ms'" by (cases ms) auto
  from mp ps ms have "?f m = Inr p" by simp
  moreover have "\<And>p. m x bs = Inr p \<Longrightarrow> shape p = s"
    using assms(2) [of m] ms by simp
  ultimately have "shape p = s" by (rule prediction_shape)
  with sh ps r show ?thesis by (simp add: np_squeeze_def)
qed

lemma stage2_count_from_contract:
  assumes masks: "Stage2_masks C sm df fps ch sz bs tta thr roi pp = Inr (ids, raw, post)"
    and iter: "np_iter post = Inr masks"
    and size: "0 < sz"
    and loader: "\<And>fpath img. load_input C fpath sz ch = Inr img \<Longrightarrow> shape img = [sz, sz, ch]"
    and pre: "\<And>a b. (case pp of None \<Rightarrow> preprocess_input C | Some f \<Rightarrow> f) a = Inr b
                \<Longrightarrow> shape b = shape a"
    and model: "\<And>m y p. m \<in> (case sm of Single m \<Rightarrow> {m} | Ensemble ms \<Rightarrow> set ms)
                \<Longrightarrow> m y bs = Inr p \<Longrightarrow> shape p = butlast (shape y) @ [1]"
    and post: "\<And>a b. post_process_all C a thr roi = Inr b \<Longrightarrow> shape b = shape a"
  shows "length ids \<le> length masks"
proof (cases "ids = []")
  case True
  then show ?thesis by simp
next
  case False
  from masks obtain paths imgs batch x where
    sel: "Stage2_select (stem C) df fps = Inr (ids, paths)"
    and ld: "sequence_err (map (\<lambda>fpath. load_input C fpath sz ch) paths) = Inr imgs"
    and ba: "np_asarray imgs = Inr batch"
    and px: "(case pp of None \<Rightarrow> preprocess_input C | Some f \<Rightarrow> f) batch = Inr x"
    and run: "run_seg_prediction x sm bs tta = Inr raw"
    and pp: "post_process_all C raw thr roi = Inr post"
    by (rule Stage2_masks_Inr)
  from sel have "map (stem C) paths = ids" by (rule Stage2_select_Inr(3))
  then have lp: "length paths = length ids" by (metis length_map)
  from ld have mp: "map (\<lambda>fpath. load_input C fpath sz ch) paths = map Inr imgs"
    by (rule sequence_err_InrD)
  then have li: "length imgs = length ids" using lp by (metis length_map)
  with False obtain img imgs' where imgs: "imgs = img # imgs'" by (cases imgs) auto
  with mp obtain fpath paths' where "paths = fpath # paths'" by (cases paths) auto
  with mp imgs have "load_input C fpath sz ch = Inr img" by simp
  then have "shape img = [sz, sz, ch]" by (rule loader)
  with ba imgs have "shape batch = [length imgs, sz, sz, ch]"
    by (auto simp: np_asarray_def split: if_splits)
  with pre [OF px] have shx: "shape x = [length ids, sz, sz, ch]" by (simp add: li)
  have "shape raw = filter (\<lambda>d. d \<noteq> 1) [length ids, sz, sz, 1]"
  proof (cases sm)
    case (Single m)
    have "\<And>p. m x bs = Inr p \<Longrightarrow> shape p = [length ids, sz, sz, 1]"
      using model [of m x] Single shx by simp
    with run [unfolded Single] show ?thesis by (rule run_seg_prediction_shape_single)
  next
    case (Ensemble ms)
    have "\<And>m p. m \<in> set ms \<Longrightarrow> m x bs = Inr p \<Longrightarrow> shape p = [length ids, sz, sz, 1]"
      using model [of _ x] Ensemble shx by simp
    with run [unfolded Ensemble] show ?thesis by (rule run_seg_prediction_shape_ensemble)
  qed
  with post [OF pp] have "shape post = filter (\<lambda>d. d \<noteq> 1) [length ids, sz, sz, 1]" by simp
  then have "post = np_squeeze \<lparr>shape = [length ids, sz, sz, 1], data = data post\<rparr>"
    by (cases post) (simp add: np_squeeze_def)
  with iter have "np_iter (np_squeeze \<lparr>shape = [length ids, sz, sz, 1], data = data post\<rparr>)
      = Inr masks" by simp
  with size show ?thesis
    by (intro squeeze_keeps_count [of "\<lparr>shape = [length ids, sz, sz, 1], data = data post\<rparr>" _ sz sz])
       simp_all
qed

section \<open>Lemmas on the mask codec\<close>

declare show_nat.simps [simp del]

lemma digit_char_props:
  assumes "d < 10"
  shows "is_digit (digit_char d)" and "digit_val (digit_char d) = d"
  using assms by (auto simp: is_digit_def digit_char_def digit_val_def)

lemma show_nat_nonempty: "show_nat n \<noteq> []"
  by (subst show_nat.simps) simp

lemma show_nat_digits: "list_all is_digit (show_nat n)"
proof (induction n rule: show_nat.induct)
  case (1 n)
  then show ?case
    by (subst show_nat.simps) (simp add: digit_char_props)
qed

lemma foldl_digits_show_nat: "foldl (\<lambda>a c. 10 * a + digit_val c) 0 (show_nat n) = n"
proof (induction n rule: show_nat.induct)
  case (1 n)
  show ?case
  proof (cases "n < 10")
    case True
    then show ?thesis by (subst show_nat.simps) (simp add: digit_char_props)
  next
    case False
    with 1 have "foldl (\<lambda>a c. 10 * a + digit_val c) 0 (show_nat (n div 10)) = n div 10" by simp
    with False show ?thesis
      by (subst show_nat.simps) (simp add: digit_char_props)
  qed
qed

lemma parse_show_nat: "parse_nat (show_nat n) = Some n"
  by (simp add: parse_nat_def show_nat_nonempty show_nat_digits foldl_digits_show_nat)

lemma is_digit_not_space: "is_digit c \<Longrightarrow> c \<noteq> CHR '' ''"
  by (auto simp: is_digit_def)

lemma is_digit_not_minus: "is_digit c \<Longrightarrow> c \<noteq> CHR ''-''"
  by (auto simp: is_digit_def)

lemma show_nat_no_space: "CHR '' '' \<notin> set (show_nat n)"
  using show_nat_digits [of n] is_digit_not_space by (auto simp: list_all_iff)

lemma split_spaces_nonempty: "split_spaces s \<noteq> []"
  by (induction s) (simp_all add: split_spaces_def)

lemma split_spaces_Cons:
  "split_spaces (c # s) =
     (if c = CHR '' '' then [] # split_spaces s
      else (c # hd (split_spaces s)) # tl (split_spaces s))"
  by (simp add: split_spaces_def)

lemma split_spaces_word: "CHR '' '' \<notin> set w \<Longrightarrow> split_spaces w = [w]"
  by (induction w) (auto simp: split_spaces_Cons split_spaces_def)

lemma split_spaces_append:
  "CHR '' '' \<notin> set w \<Longrightarrow> split_spaces (w @ CHR '' '' # s) = w # split_spaces s"
  by (induction w) (auto simp: split_spaces_Cons)

lemma split_join_spaces:
  "ws \<noteq> [] \<Longrightarrow> list_all (\<lambda>w. CHR '' '' \<notin> set w) ws \<Longrightarrow> split_spaces (join_spaces ws) = ws"
proof (induction ws rule: join_spaces.induct)
  case 1
  then show ?case by simp
next
  case (2 w)
  then show ?case by (simp add: split_spaces_word)
next
  case (3 w v ws)
  then show ?case by (simp add: split_spaces_append)
qed

lemma pair_up_flatten: "pair_up (concat (map (\<lambda>(s, l). [s, l]) rs)) = Some rs"
  by (induction rs) auto

lemma in_runs_Nil [simp]: "in_runs [] q = False"
  by (simp add: in_runs_def)

lemma in_runs_Cons [simp]: "in_runs ((s, l) # rs) q = (s \<le> q \<and> q < s + l \<or> in_runs rs q)"
  by (simp add: in_runs_def)

lemma takeWhile_id_nth: "i < length (takeWhile id bs) \<Longrightarrow> bs ! i"
  by (metis id_apply nth_mem set_takeWhileD takeWhile_nth)

lemma dropWhile_id_first: "length (takeWhile id bs) < length bs \<Longrightarrow> \<not> bs ! length (takeWhile id bs)"
  using nth_length_takeWhile [of id bs] by simp

lemma nth_after_takeWhile:
  "bs ! (length (takeWhile id bs) + j) = dropWhile id bs ! j"
proof -
  have "bs = takeWhile id bs @ dropWhile id bs" by simp
  then have "bs ! (length (takeWhile id bs) + j)
      = (takeWhile id bs @ dropWhile id bs) ! (length (takeWhile id bs) + j)" by simp
  then show ?thesis by (simp only: nth_append_length_plus)
qed

lemma length_take_drop_While: "length (takeWhile id bs) + length (dropWhile id bs) = length bs"
  by (metis length_append takeWhile_dropWhile_id)

lemma in_runs_find_runs:
  "in_runs (find_runs p bs) q \<longleftrightarrow> p \<le> q \<and> q < p + length bs \<and> bs ! (q - p)"
proof (induction p bs arbitrary: q rule: find_runs.induct)
  case (1 p)
  then show ?case by simp
next
  case (2 p bs)
  show ?case
  proof (cases "q = p")
    case True
    then show ?thesis by (simp add: 2)
  next
    case False
    then show ?thesis by (auto simp: 2 Suc_diff_le nth_Cons')
  qed
next
  case (3 p bs)
  let ?n = "length (takeWhile id bs)"
  let ?d = "dropWhile id bs"
  have len: "?n + length ?d = length bs" by (rule length_take_drop_While)
  have IH: "in_runs (find_runs (Suc p + ?n) ?d) q
      \<longleftrightarrow> Suc p + ?n \<le> q \<and> q < Suc p + ?n + length ?d \<and> ?d ! (q - (Suc p + ?n))"
    by (rule 3)
  consider "q < p" | "p \<le> q" "q < Suc p + ?n" | "Suc p + ?n \<le> q" by linarith
  then show ?case
  proof cases
    case 1
    then show ?thesis using IH by auto
  next
    case 2
    have "(True # bs) ! (q - p)"
    proof (cases "q = p")
      case True
      then show ?thesis by simp
    next
      case False
      with 2 have "q - p - 1 < ?n" by linarith
      then have "bs ! (q - p - 1)" by (rule takeWhile_id_nth)
      with False 2 show ?thesis by (simp add: nth_Cons')
    qed
    with 2 len show ?thesis using IH by auto
  next
    case 3
    then have "q - p = Suc (?n + (q - (Suc p + ?n)))" by linarith
    then have "(True # bs) ! (q - p) = bs ! (?n + (q - (Suc p + ?n)))"
      by (simp only: nth_Cons_Suc)
    then have "(True # bs) ! (q - p) = ?d ! (q - (Suc p + ?n))"
      by (simp only: nth_after_takeWhile)
    with 3 len show ?thesis using IH by auto
  qed
qed

lemma run_at_shift_False:
  assumes "run_at (Suc p) bs s l"
  shows "run_at p (False # bs) s l"
proof -
  from assms have s: "Suc p \<le> s" by (simp add: run_at_def)
  have idx: "(False # bs) ! (q - p) = bs ! (q - Suc p)" if "Suc p \<le> q" for q
    using that by (simp add: nth_Cons' Suc_diff_le)
  have before: "\<not> (False # bs) ! (s - 1 - p)"
  proof (cases "s = Suc p")
    case True
    then show ?thesis by simp
  next
    case False
    with s have "Suc p < s" by simp
    with assms have "\<not> bs ! (s - 1 - Suc p)" by (simp add: run_at_def)
    moreover from \<open>Suc p < s\<close> have "(False # bs) ! (s - 1 - p) = bs ! (s - 1 - Suc p)"
      using idx [of "s - 1"] by simp
    ultimately show ?thesis by simp
  qed
  from assms s before show ?thesis
    unfolding run_at_def by (auto simp: idx)
qed

lemma run_at_first:
  "run_at p (True # bs) p (Suc (length (takeWhile id bs)))"
proof -
  let ?n = "length (takeWhile id bs)"
  have le: "?n \<le> length bs" by (rule length_takeWhile_le)
  have px: "(True # bs) ! (q - p)" if "p \<le> q" "q < p + Suc ?n" for q
  proof (cases "q = p")
    case True
    then show ?thesis by simp
  next
    case False
    with that have "q - p - 1 < ?n" by linarith
    then have "bs ! (q - p - 1)" by (rule takeWhile_id_nth)
    with False that show ?thesis by (simp add: nth_Cons')
  qed
  have after: "\<not> (True # bs) ! (p + Suc ?n - p)" if "p + Suc ?n < p + length (True # bs)"
  proof -
    from that have "?n < length bs" by simp
    then have "\<not> bs ! ?n" by (rule dropWhile_id_first)
    then show ?thesis by simp
  qed
  from le px after show ?thesis unfolding run_at_def by auto
qed

lemma run_at_after_run:
  assumes "run_at (Suc p + length (takeWhile id bs)) (dropWhile id bs) s l"
  shows "Suc p + length (takeWhile id bs) < s"
proof (rule ccontr)
  let ?n = "length (takeWhile id bs)"
  let ?d = "dropWhile id bs"
  assume "\<not> Suc p + ?n < s"
  with assms have eq: "s = Suc p + ?n" by (simp add: run_at_def)
  from assms have l: "0 < l" and fit: "s + l \<le> Suc p + ?n + length ?d"
    and px: "\<And>q. s \<le> q \<Longrightarrow> q < s + l \<Longrightarrow> ?d ! (q - (Suc p + ?n))"
    by (simp_all add: run_at_def)
  from eq px [of s] l have d0: "?d ! 0" by simp
  from eq fit l have "0 < length ?d" by linarith
  moreover have "?n + length ?d = length bs" by (rule length_take_drop_While)
  ultimately have "?n < length bs" by linarith
  then have "\<not> bs ! ?n" by (rule dropWhile_id_first)
  moreover have "bs ! (?n + 0) = ?d ! 0" by (rule nth_after_takeWhile)
  ultimately show False using d0 by simp
qed

lemma run_at_shift_True:
  assumes "run_at (Suc p + length (takeWhile id bs)) (dropWhile id bs) s l"
  shows "run_at p (True # bs) s l"
proof -
  let ?n = "length (takeWhile id bs)"
  let ?d = "dropWhile id bs"
  have len: "?n + length ?d = length bs" by (rule length_take_drop_While)
  from assms have s: "Suc p + ?n \<le> s" and l: "0 < l"
    and fit: "s + l \<le> Suc p + ?n + length ?d"
    and px: "\<And>q. s \<le> q \<Longrightarrow> q < s + l \<Longrightarrow> ?d ! (q - (Suc p + ?n))"
    and after: "s + l < Suc p + ?n + length ?d \<Longrightarrow> \<not> ?d ! (s + l - (Suc p + ?n))"
    and before: "Suc p + ?n < s \<Longrightarrow> \<not> ?d ! (s - 1 - (Suc p + ?n))"
    by (simp_all add: run_at_def)
  have idx: "(True # bs) ! (q - p) = ?d ! (q - (Suc p + ?n))" if "Suc p + ?n \<le> q" for q
  proof -
    from that have "q - p = Suc (?n + (q - (Suc p + ?n)))" by linarith
    then have "(True # bs) ! (q - p) = bs ! (?n + (q - (Suc p + ?n)))"
      by (simp only: nth_Cons_Suc)
    then show ?thesis by (simp only: nth_after_takeWhile)
  qed
  have strict: "Suc p + ?n < s"
    using assms by (rule run_at_after_run)
  have b: "\<not> (True # bs) ! (s - 1 - p)"
    using before [OF strict] idx [of "s - 1"] strict by simp
  have a: "\<not> (True # bs) ! (s + l - p)" if "s + l < p + length (True # bs)"
    using that after idx [of "s + l"] s len by simp
  have c: "(True # bs) ! (q - p)" if "s \<le> q" "q < s + l" for q
    using that px [of q] idx [of q] s by simp
  from s l fit len a b c show ?thesis
    unfolding run_at_def by auto
qed

lemma find_runs_run_at: "(s, l) \<in> set (find_runs p bs) \<Longrightarrow> run_at p bs s l"
proof (induction p bs rule: find_runs.induct)
  case (1 p)
  then show ?case by simp
next
  case (2 p bs)
  then show ?case by (simp add: run_at_shift_False)
next
  case (3 p bs)
  then show ?case by (auto simp: run_at_first run_at_shift_True)
qed

lemma find_runs_maximal: "list_all (maximal_run bs) (find_runs 0 bs)"
proof -
  have "maximal_run bs (s, l)" if "(s, l) \<in> set (find_runs 0 bs)" for s l
  proof -
    from that have r: "run_at 0 bs s l" by (rule find_runs_run_at)
    then have "list_all (\<lambda>q. bs ! q) [s..<s + l]"
      by (simp add: run_at_def list_all_iff)
    with r show ?thesis
      unfolding maximal_run_def run_at_def by auto
  qed
  then show ?thesis by (auto simp: list_all_iff)
qed

lemma find_runs_separated:
  "sorted_wrt (\<lambda>r r'. fst r + snd r < fst r') (find_runs p bs)"
proof (induction p bs rule: find_runs.induct)
  case (1 p)
  then show ?case by simp
next
  case (2 p bs)
  then show ?case by simp
next
  case (3 p bs)
  have "p + Suc (length (takeWhile id bs)) < fst r"
    if "r \<in> set (find_runs (Suc p + length (takeWhile id bs)) (dropWhile id bs))" for r
  proof -
    from that have "run_at (Suc p + length (takeWhile id bs)) (dropWhile id bs) (fst r) (snd r)"
      by (intro find_runs_run_at) simp
    then have "Suc p + length (takeWhile id bs) < fst r" by (rule run_at_after_run)
    then show ?thesis by simp
  qed
  with 3 show ?case by auto
qed

lemma parse_rle_string:
  assumes "rs \<noteq> []"
  shows "parse_rle (rle_string rs) = Inr rs" and "rle_string rs \<noteq> ''-1''"
proof -
  let ?toks = "concat (map (\<lambda>(s, l). [show_nat s, show_nat l]) rs)"
  have ne: "?toks \<noteq> []" using assms by (cases rs) auto
  have nosp: "list_all (\<lambda>w. CHR '' '' \<notin> set w) ?toks"
    by (auto simp: list_all_iff show_nat_no_space)
  have sp: "split_spaces (join_spaces ?toks) = ?toks"
    using ne nosp by (rule split_join_spaces)
  have nums: "map parse_nat ?toks = map Some (concat (map (\<lambda>(s, l). [s, l]) rs))"
    by (induction rs) (auto simp: parse_show_nat)
  show "parse_rle (rle_string rs) = Inr rs"
    using assms by (simp add: parse_rle_def rle_string_def sp nums list_all_iff comp_def
        pair_up_flatten)
  obtain s l rest where rs: "rs = (s, l) # rest" using assms by (cases rs) auto
  have "hd (show_nat s) \<in> set (show_nat s)" by (simp add: show_nat_nonempty)
  then have "is_digit (hd (show_nat s))"
    using show_nat_digits [of s] by (simp add: list_all_iff)
  then have "hd (show_nat s) \<noteq> CHR ''-''" by (rule is_digit_not_minus)
  moreover have "hd (join_spaces ?toks) = hd (show_nat s)"
    by (simp add: rs show_nat_nonempty)
  ultimately show "rle_string rs \<noteq> ''-1''"
    using assms by (auto simp: rle_string_def)
qed

lemma scan_index:
  fixes i height width :: nat
  assumes "i < height * width"
  shows "(i mod width) * height + i div width < height * width"
    and "((i mod width) * height + i div width) mod height = i div width"
    and "((i mod width) * height + i div width) div height = i mod width"
proof -
  from assms have w: "0 < width" by (cases width) simp_all
  from assms have h: "height \<noteq> 0" by (cases height) simp_all
  from assms have d: "i div width < height" by (rule less_mult_imp_div_less)
  have m: "Suc (i mod width) \<le> width" using w by (simp add: Suc_leI)
  have "((i mod width) * height + i div width) mod height = (i div width) mod height"
    by (rule mod_mult_self3)
  with d show "((i mod width) * height + i div width) mod height = i div width"
    by (simp only: mod_less)
  have "((i mod width) * height + i div width) div height = i mod width + (i div width) div height"
    using h by (rule div_mult_self3)
  with d show "((i mod width) * height + i div width) div height = i mod width"
    by (simp only: div_less add_0_right)
  have "(i mod width) * height + i div width < (i mod width) * height + height"
    using d by (simp only: add_less_cancel_left)
  also have "\<dots> = Suc (i mod width) * height" by (simp only: mult_Suc add.commute)
  also have "\<dots> \<le> width * height" using m by (rule mult_le_mono1)
  finally show "(i mod width) * height + i div width < height * width"
    by (simp only: mult.commute)
qed

lemma mask_of_runs_scan:
  assumes "valid_mask m height width"
  shows "mask_of_runs (find_runs 0 (column_major_scan m height width)) height width = m"
proof -
  let ?bits = "column_major_scan m height width"
  from assms have sh: "shape m = [height, width]" and len: "length (data m) = height * width"
    and bin: "\<And>i. i < height * width \<Longrightarrow> data m ! i = 0 \<or> data m ! i = 1"
    by (auto simp: valid_mask_def list_all_length)
  have px: "(if in_runs (find_runs 0 ?bits) ((i mod width) * height + i div width) then 1 else 0)
      = data m ! i" if i: "i < height * width" for i
  proof -
    let ?p = "(i mod width) * height + i div width"
    note sc = scan_index [OF i]
    have "in_runs (find_runs 0 ?bits) ?p \<longleftrightarrow> ?bits ! ?p"
      using sc(1) by (simp add: in_runs_find_runs column_major_scan_def)
    also have "\<dots> \<longleftrightarrow> data m ! ((?p mod height) * width + ?p div height) = 1"
      using sc(1) by (simp add: column_major_scan_def)
    also have "(?p mod height) * width + ?p div height = i"
      by (simp only: sc(2,3)) simp
    finally show ?thesis using bin [OF i] by auto
  qed
  have "data (mask_of_runs (find_runs 0 ?bits) height width) = data m"
    using len by (intro nth_equalityI) (simp_all add: mask_of_runs_def px)
  then show ?thesis
    using sh by (cases m) (simp add: mask_of_runs_def)
qed

lemma find_runs_all_False: "list_all (\<lambda>b. \<not> b) bs \<Longrightarrow> find_runs p bs = []"
  by (induction p bs rule: find_runs.induct) simp_all

lemma mask_of_runs_Nil:
  "mask_of_runs [] height width = \<lparr>shape = [height, width], data = replicate (height * width) 0\<rparr>"
  by (simp add: mask_of_runs_def map_replicate_const)

lemma rle_string_nonempty: "rle_string rs \<noteq> []"
proof (cases rs)
  case Nil
  then show ?thesis by (simp add: rle_string_def)
next
  case (Cons r rest)
  obtain s l where r: "r = (s, l)" by (cases r)
  have "join_spaces (show_nat s # ts) \<noteq> []" for ts
    by (cases ts) (simp_all add: show_nat_nonempty)
  then show ?thesis by (simp add: rle_string_def Cons r)
qed

lemma column_major_scan_zero:
  assumes "valid_mask m height width" and "list_all (\<lambda>v. v = 0) (data m)"
  shows "list_all (\<lambda>b. \<not> b) (column_major_scan m height width)"
proof -
  have "data m ! ((p mod height) * width + p div height) \<noteq> 1" if p: "p < height * width" for p
  proof -
    from p have "p < width * height" by (simp only: mult.commute)
    then have "(p mod height) * width + p div height < width * height" by (rule scan_index(1))
    with assms(1) have "(p mod height) * width + p div height < length (data m)"
      by (simp add: valid_mask_def mult.commute)
    with assms(2) have "data m ! ((p mod height) * width + p div height) = 0"
      by (simp add: list_all_length)
    then show ?thesis by simp
  qed
  then show ?thesis by (simp add: column_major_scan_def list_all_iff)
qed

section \<open>Lemmas on ensembling\<close>






section \<open>The claims\<close>

text \<open>
  C2. Selection takes exactly the identifiers whose cell is the pending sentinel (the int
  \<open>1\<close>), in sorted order: the selected list is sorted and has the same elements, with
  multiplicity, as the pending rows. If the sorted stems of the resolved files differ from
  the sorted selected identifiers, the assertion fails and \<^verbatim>\<open>Stage2\<close> ends with
  \<open>AssertionError\<close> (the specification's SelectionMismatch), whatever the model, the loader and
  the other collaborators would do: nothing is loaded or predicted before the assertion.
\<close>

theorem stage2_selection:
  "sorted (sort (map fst (filter (\<lambda>(i, c). c = IntCell 1) df)))
   \<and> mset (sort (map fst (filter (\<lambda>(i, c). c = IntCell 1) df)))
       = mset (map fst (filter (\<lambda>(i, c). c = IntCell 1) df))
   \<and> (\<forall>ids paths. Stage2_select (stem C) df fps = Inr (ids, paths) \<longrightarrow>
         ids = sort (map fst (filter (\<lambda>(i, c). c = IntCell 1) df)))
   \<and> (sort (map (stem C) (filter (\<lambda>fpath. stem C fpath
              \<in> set (sort (map fst (filter (\<lambda>(i, c). c = IntCell 1) df)))) fps))
        \<noteq> sort (map fst (filter (\<lambda>(i, c). c = IntCell 1) df))
       \<longrightarrow> Stage2_select (stem C) df fps = Inl AssertionError
         \<and> Stage2 C seg_model df fps channels img_size batch_size tta threshold save_pred_arr_p
              min_roi_size preprocess_fn = Inl AssertionError)"
proof (intro conjI allI impI)
  show "sorted (sort (map fst (filter (\<lambda>(i, c). c = IntCell 1) df)))"
    by (rule sorted_sort)
  show "mset (sort (map fst (filter (\<lambda>(i, c). c = IntCell 1) df)))
       = mset (map fst (filter (\<lambda>(i, c). c = IntCell 1) df))"
    by (rule mset_sort)
next
  fix ids paths
  assume "Stage2_select (stem C) df fps = Inr (ids, paths)"
  then show "ids = sort (map fst (filter (\<lambda>(i, c). c = IntCell 1) df))"
    by (rule Stage2_select_Inr(1))
next
  assume ne: "sort (map (stem C) (filter (\<lambda>fpath. stem C fpath
              \<in> set (sort (map fst (filter (\<lambda>(i, c). c = IntCell 1) df)))) fps))
        \<noteq> sort (map fst (filter (\<lambda>(i, c). c = IntCell 1) df))"
  then show sel: "Stage2_select (stem C) df fps = Inl AssertionError"
    by (rule Stage2_select_mismatch)
  then show "Stage2 C seg_model df fps channels img_size batch_size tta threshold save_pred_arr_p
              min_roi_size preprocess_fn = Inl AssertionError"
    by (rule Stage2_select_abort)
qed

theorem stage2_selection_witness:
  "sort (map (stem example_collaborators) (filter (\<lambda>fpath. stem example_collaborators fpath
       \<in> set (sort (map fst (filter (\<lambda>(i, c). c = IntCell 1) example_df))))
       [''img/b.png'', ''img/a.png'']))
     = [''a'']
   \<and> sort (map fst (filter (\<lambda>(i, c). c = IntCell 1) example_df)) = [''a'', ''c'']
   \<and> Stage2 example_collaborators (Single rank4_model) example_df [''img/b.png'', ''img/a.png'']
        3 2 32 True (1 / 2) True 3500 None = Inl AssertionError
   \<and> Stage2_select posix_stem example_df [''img/c.png'', ''img/b.png'', ''img/a.png'']
        = Inr ([''a'', ''c''], [''img/a.png'', ''img/c.png''])"
proof -
  have 1: "sort (map (stem example_collaborators) (filter (\<lambda>fpath. stem example_collaborators fpath
       \<in> set (sort (map fst (filter (\<lambda>(i, c). c = IntCell 1) example_df))))
       [''img/b.png'', ''img/a.png'']))
     = [''a'']"
    by code_simp
  have 2: "sort (map fst (filter (\<lambda>(i, c). c = IntCell 1) example_df)) = [''a'', ''c'']"
    by code_simp
  have 3: "Stage2_select posix_stem example_df [''img/c.png'', ''img/b.png'', ''img/a.png'']
        = Inr ([''a'', ''c''], [''img/a.png'', ''img/c.png''])"
    by code_simp
  have ne: "sort (map (stem example_collaborators) (filter (\<lambda>fpath. stem example_collaborators fpath
       \<in> set (sort (map fst (filter (\<lambda>(i, c). c = IntCell 1) example_df))))
       [''img/b.png'', ''img/a.png'']))
     \<noteq> sort (map fst (filter (\<lambda>(i, c). c = IntCell 1) example_df))"
    by code_simp
  have 4: "Stage2 example_collaborators (Single rank4_model) example_df [''img/b.png'', ''img/a.png'']
        3 2 32 True (1 / 2) True 3500 None = Inl AssertionError"
    using stage2_selection [of example_df example_collaborators "[''img/b.png'', ''img/a.png'']"
      "Single rank4_model" 3 2 32 True "1 / 2" True 3500 None] ne
    by blast
  from 1 2 3 4 show ?thesis by (intro conjI)
qed

text \<open>
  C3. For a non-empty batch of shape \<open>(n, h, w, c)\<close> and a model that returns
  well-formed predictions of shape \<open>(n, h, w, k)\<close> on the batch and on its mirrored copy,
  \<^verbatim>\<open>TTA_Segmentation_All\<close> returns the element-wise mean of the prediction on the batch
  and of the prediction on the mirrored batch, mirrored back; the runner with
  \<^verbatim>\<open>tta=True\<close> returns that mean, squeezed. If the model commutes with the flip (its
  prediction on the mirrored batch is the mirrored prediction), the result is the plain
  prediction, because mirroring twice is the identity.
\<close>

theorem tta_mean:
  assumes "shape x = n # h # w # c" and "0 < n"
    and "model x bs = Inr p" and "wf_ndarray p" and "shape p = n # h # w # k"
    and "fliplr_all x = Inr xf"
    and "model xf bs = Inr q" and "wf_ndarray q" and "shape q = n # h # w # k"
  shows "\<exists>qb. fliplr_all q = Inr qb
            \<and> TTA_Segmentation_All model x bs = Inr (elementwise_mean p qb)
            \<and> run_seg_prediction x (Single model) bs True = Inr (np_squeeze (elementwise_mean p qb))
            \<and> (fliplr_all p = Inr q \<longrightarrow>
                 TTA_Segmentation_All model x bs = Inr p
               \<and> run_seg_prediction x (Single model) bs True
                   = run_seg_prediction x (Single model) bs False)"
proof -
  let ?K = "prod_list k"
  define qb where "qb = q\<lparr>data := flip_images n h w ?K (data q)\<rparr>"
  have lq: "length (data q) = n * (h * (w * ?K))"
    using assms(8,9) by (simp add: wf_ndarray_def)
  have lp: "length (data p) = n * (h * (w * ?K))"
    using assms(4,5) by (simp add: wf_ndarray_def)
  have fq: "fliplr_all q = Inr qb"
    unfolding qb_def using assms(9) assms(2) by (rule fliplr_all_eq)
  have wq: "wf_ndarray qb" and sq: "shape qb = shape p"
    using flip_images_length [OF lq] assms(5,9) by (simp_all add: qb_def wf_ndarray_def)
  have tta: "TTA_Segmentation_All model x bs = ebind (np_asarray [p, qb]) np_mean_axis0"
    by (simp add: TTA_Segmentation_All_def ebind_def assms(3,6,7) fq)
  then have 1: "TTA_Segmentation_All model x bs = Inr (elementwise_mean p qb)"
    by (simp only: np_mean_axis0_pair [OF assms(4) wq sq])
  then have 2: "run_seg_prediction x (Single model) bs True
      = Inr (np_squeeze (elementwise_mean p qb))"
    by (simp add: run_seg_prediction_def ebind_def)
  have 3: "TTA_Segmentation_All model x bs = Inr p
         \<and> run_seg_prediction x (Single model) bs True
             = run_seg_prediction x (Single model) bs False"
    if comm: "fliplr_all p = Inr q"
  proof -
    have "fliplr_all p = Inr (p\<lparr>data := flip_images n h w ?K (data p)\<rparr>)"
      using assms(5) assms(2) by (rule fliplr_all_eq)
    with comm have "q = p\<lparr>data := flip_images n h w ?K (data p)\<rparr>" by simp
    then have "qb = p\<lparr>data := flip_images n h w ?K (flip_images n h w ?K (data p))\<rparr>"
      by (simp add: qb_def)
    then have "qb = p" by (simp add: flip_images_invol [OF lp])
    with 1 have "TTA_Segmentation_All model x bs = Inr p"
      by (simp add: elementwise_mean_same [OF assms(4)])
    then show ?thesis
      by (simp add: run_seg_prediction_def ebind_def assms(3))
  qed
  from fq 1 2 3 show ?thesis by blast
qed

theorem tta_mean_witness:
  "fliplr_all \<lparr>shape = [1, 1, 2, 1], data = [1, 3]\<rparr> = Inr \<lparr>shape = [1, 1, 2, 1], data = [3, 1]\<rparr>
   \<and> ramp_model \<lparr>shape = [1, 1, 2, 1], data = [1, 3]\<rparr> 32 = Inr \<lparr>shape = [1, 1, 2, 1], data = [0, 3]\<rparr>
   \<and> ramp_model \<lparr>shape = [1, 1, 2, 1], data = [3, 1]\<rparr> 32 = Inr \<lparr>shape = [1, 1, 2, 1], data = [0, 1]\<rparr>
   \<and> TTA_Segmentation_All ramp_model \<lparr>shape = [1, 1, 2, 1], data = [1, 3]\<rparr> 32
       = Inr \<lparr>shape = [1, 1, 2, 1], data = [1 / 2, 3 / 2]\<rparr>
   \<and> first_channel_model \<lparr>shape = [1, 1, 2, 1], data = [1, 3]\<rparr> 32 = Inr \<lparr>shape = [1, 1, 2, 1], data = [1, 3]\<rparr>
   \<and> fliplr_all \<lparr>shape = [1, 1, 2, 1], data = [1, 3]\<rparr>
       = first_channel_model \<lparr>shape = [1, 1, 2, 1], data = [3, 1]\<rparr> 32
   \<and> TTA_Segmentation_All first_channel_model \<lparr>shape = [1, 1, 2, 1], data = [1, 3]\<rparr> 32
       = Inr \<lparr>shape = [1, 1, 2, 1], data = [1, 3]\<rparr>"
  using tta_mean [of "\<lparr>shape = [1, 1, 2, 1], data = [1, 3]\<rparr>" 1 1 2 "[1]" ramp_model 32
      "\<lparr>shape = [1, 1, 2, 1], data = [0, 3]\<rparr>" "[1]" "\<lparr>shape = [1, 1, 2, 1], data = [3, 1]\<rparr>"
      "\<lparr>shape = [1, 1, 2, 1], data = [0, 1]\<rparr>"]
    tta_mean [of "\<lparr>shape = [1, 1, 2, 1], data = [1, 3]\<rparr>" 1 1 2 "[1]" first_channel_model 32
      "\<lparr>shape = [1, 1, 2, 1], data = [1, 3]\<rparr>" "[1]" "\<lparr>shape = [1, 1, 2, 1], data = [3, 1]\<rparr>"
      "\<lparr>shape = [1, 1, 2, 1], data = [3, 1]\<rparr>"]
  by (simp add: runner_defs ramp_model_def first_channel_model_def upt_conv_Cons)

text \<open>
  C7. Ensembling the singleton collection \<open>[m]\<close> gives the same result as running
  \<open>m\<close> alone, with and without test-time augmentation, errors included, for every model
  whose prediction is a well-formed array.
\<close>

theorem singleton_ensemble:
  assumes "\<And>p. m x bs = Inr p \<Longrightarrow> wf_ndarray p"
  shows "run_seg_prediction x (Ensemble [m]) bs tta = run_seg_prediction x (Single m) bs tta"
proof (cases tta)
  case True
  show ?thesis
  proof (cases "TTA_Segmentation_All m x bs")
    case (Inl e)
    then show ?thesis by (simp add: run_seg_prediction_def ebind_def True)
  next
    case (Inr p)
    then have "wf_ndarray p" by (rule TTA_Segmentation_All_wf)
    then have "ebind (np_stack [p]) np_mean_axis0 = Inr p" by (rule np_mean_axis0_single)
    then show ?thesis
      by (auto simp: run_seg_prediction_def ebind_def True Inr split: sum.splits)
  qed
next
  case False
  show ?thesis
  proof (cases "m x bs")
    case (Inl e)
    then show ?thesis by (simp add: run_seg_prediction_def ebind_def False)
  next
    case (Inr p)
    then have "wf_ndarray p" by (rule assms)
    then have "ebind (np_stack [p]) np_mean_axis0 = Inr p" by (rule np_mean_axis0_single)
    then show ?thesis
      by (auto simp: run_seg_prediction_def ebind_def False Inr split: sum.splits)
  qed
qed

theorem singleton_ensemble_witness:
  "first_channel_model \<lparr>shape = [2, 1, 2, 1], data = [1, 2, 3, 4]\<rparr> 32
      = Inr \<lparr>shape = [2, 1, 2, 1], data = [1, 2, 3, 4]\<rparr>
   \<and> wf_ndarray \<lparr>shape = [2, 1, 2, 1], data = [1, 2, 3, 4]\<rparr>
   \<and> run_seg_prediction \<lparr>shape = [2, 1, 2, 1], data = [1, 2, 3, 4]\<rparr>
         (Ensemble [first_channel_model]) 32 False
      = run_seg_prediction \<lparr>shape = [2, 1, 2, 1], data = [1, 2, 3, 4]\<rparr>
         (Single first_channel_model) 32 False
   \<and> run_seg_prediction \<lparr>shape = [2, 1, 2, 1], data = [1, 2, 3, 4]\<rparr>
         (Single first_channel_model) 32 False
      = Inr \<lparr>shape = [2, 2], data = [1, 2, 3, 4]\<rparr>"
  using singleton_ensemble [of first_channel_model "\<lparr>shape = [2, 1, 2, 1], data = [1, 2, 3, 4]\<rparr>" 32 False]
  by (simp add: runner_defs first_channel_model_def upt_conv_Cons)

text \<open>
  C1, as stated, fails: \<^verbatim>\<open>zip(p_ids, rles)\<close> stops at the shorter list and nothing
  compares the number of masks with the number of selected identifiers. With three pending
  identifiers and a model that predicts for two images only, the run completes and the
  third identifier keeps the pending sentinel.
\<close>

theorem stage2_terminal_state_counterexample:
  "Stage2 example_collaborators (Single drop_last_model)
      [(''a'', IntCell 1), (''b'', IntCell 1), (''c'', IntCell 1)]
      [''img/a.png'', ''img/b.png'', ''img/c.png''] 3 2 32 True (1 / 2) True 3500 None
     = Inr \<lparr>submission_final =
             [(''a'', StrCell ''-1''), (''b'', StrCell ''-1''), (''c'', IntCell 1)],
           predicted_probability_masks =
             Some \<lparr>shape = [2, 2, 2], data = [0, 0, 0, 0, 0, 0, 0, 0]\<rparr>\<rparr>"
  by code_simp

text \<open>
  C1, amended. When a Stage-2 run completes, the written table has the identifiers of the
  input table, in order, and no cell is a blank string. The cell of an identifier among
  the first \<open>n\<close> selected identifiers, \<open>n\<close> the number of post-processed masks, is the
  encoding of one of the masks, with a blank encoding replaced by \<open>"-1"\<close>; every other
  cell is untouched, but for a blank, which becomes \<open>"-1"\<close>; a pending cell belongs to a
  selected identifier. When there are at least as many masks as selected identifiers,
  every selected identifier is among the first \<open>n\<close> and no cell is the pending sentinel
  (the int \<open>1\<close>). Lemma \<open>stage2_count_from_contract\<close> gives that count from the contracts
  of the loader, the preprocessing, the models and the post-processor.
\<close>

theorem stage2_terminal_state:
  assumes "Stage2_masks C m df fps ch sz bs tta thr roi pp = Inr (ids, raw, post)"
    and "Stage2 C m df fps ch sz bs tta thr save roi pp = Inr out"
    and "np_iter post = Inr masks"
  shows "map fst (submission_final out) = map fst df
    \<and> (\<forall>k < length df.
          snd (submission_final out ! k) \<noteq> StrCell []
        \<and> (if fst (df ! k) \<in> set (take (length masks) ids)
           then \<exists>pred \<in> set masks. \<exists>s. mask2rle C pred 1024 1024 = Inr s
                  \<and> snd (submission_final out ! k) = StrCell (if s = [] then ''-1'' else s)
           else snd (submission_final out ! k)
                  = (if snd (df ! k) = StrCell [] then StrCell ''-1'' else snd (df ! k)))
        \<and> (fst (df ! k) \<in> set ids \<or> snd (df ! k) \<noteq> IntCell 1))
    \<and> (length ids \<le> length masks \<longrightarrow>
          take (length masks) ids = ids
        \<and> (\<forall>k < length df. snd (submission_final out ! k) \<noteq> IntCell 1))"
proof -
  from assms(2) assms(1)
  have ed: "edit_classification_df (mask2rle C) df post ids = Inr (submission_final out)"
    by (auto elim!: Stage2_Inr)
  from assms(1) have ids: "ids = sort (map fst (filter (\<lambda>(i, c). c = IntCell 1) df))"
    by (auto elim!: Stage2_masks_Inr dest: Stage2_select_Inr(1))
  have pend: "fst (df ! k) \<in> set ids \<or> snd (df ! k) \<noteq> IntCell 1" if k: "k < length df" for k
  proof (cases "snd (df ! k) = IntCell 1")
    case True
    with k have "df ! k \<in> set (filter (\<lambda>(i, c). c = IntCell 1) df)"
      by (auto simp: case_prod_beta)
    then have "fst (df ! k) \<in> fst ` set (filter (\<lambda>(i, c). c = IntCell 1) df)"
      by (rule imageI)
    then have "fst (df ! k) \<in> set ids" unfolding ids by simp
    then show ?thesis by simp
  next
    case False
    then show ?thesis by simp
  qed
  have row: "snd (submission_final out ! k) \<noteq> StrCell []
        \<and> (if fst (df ! k) \<in> set (take (length masks) ids)
           then \<exists>pred \<in> set masks. \<exists>s. mask2rle C pred 1024 1024 = Inr s
                  \<and> snd (submission_final out ! k) = StrCell (if s = [] then ''-1'' else s)
           else snd (submission_final out ! k)
                  = (if snd (df ! k) = StrCell [] then StrCell ''-1'' else snd (df ! k)))
        \<and> (fst (df ! k) \<in> set ids \<or> snd (df ! k) \<noteq> IntCell 1)"
    if k: "k < length df" for k
    using edit_classification_df_rows(2) [OF ed assms(3) k]
      edit_classification_df_rows(3) [OF ed assms(3) k]
      edit_classification_df_rows(4) [OF ed assms(3) k] pend [OF k]
    by (cases "fst (df ! k) \<in> set (take (length masks) ids)") simp_all
  have full: "take (length masks) ids = ids
        \<and> (\<forall>k < length df. snd (submission_final out ! k) \<noteq> IntCell 1)"
    if cnt: "length ids \<le> length masks"
  proof -
    from cnt have tk: "take (length masks) ids = ids" by simp
    have "snd (submission_final out ! k) \<noteq> IntCell 1" if k: "k < length df" for k
    proof (cases "fst (df ! k) \<in> set ids")
      case True
      with row [OF k] tk obtain s where
        "snd (submission_final out ! k) = StrCell (if s = [] then ''-1'' else s)" by auto
      then show ?thesis by simp
    next
      case False
      with pend [OF k] have "snd (df ! k) \<noteq> IntCell 1" by simp
      moreover from False row [OF k] tk
      have "snd (submission_final out ! k)
          = (if snd (df ! k) = StrCell [] then StrCell ''-1'' else snd (df ! k))" by simp
      ultimately show ?thesis by auto
    qed
    with tk show ?thesis by blast
  qed
  from edit_classification_df_fst [OF ed] row full show ?thesis by blast
qed

theorem stage2_terminal_state_witness:
  "Stage2_masks example_collaborators (Single first_channel_model) example_df
      [''img/c.png'', ''img/b.png'', ''img/a.png''] 3 2 32 True (1 / 2) 3500 None
     = Inr ([''a'', ''c''], \<lparr>shape = [2, 2, 2], data = [0, 0, 0, 0, 1, 1, 1, 1]\<rparr>,
            \<lparr>shape = [2, 2, 2], data = [0, 0, 0, 0, 1, 1, 1, 1]\<rparr>)
   \<and> np_iter \<lparr>shape = [2, 2, 2], data = [0, 0, 0, 0, 1, 1, 1, 1]\<rparr>
     = Inr [\<lparr>shape = [2, 2], data = [0, 0, 0, 0]\<rparr>, \<lparr>shape = [2, 2], data = [1, 1, 1, 1]\<rparr>]
   \<and> Stage2 example_collaborators (Single first_channel_model) example_df
      [''img/c.png'', ''img/b.png'', ''img/a.png''] 3 2 32 True (1 / 2) True 3500 None
     = Inr \<lparr>submission_final =
             [(''a'', StrCell ''-1''), (''b'', IntCell (- 1)), (''c'', StrCell ''0 4'')],
           predicted_probability_masks =
             Some \<lparr>shape = [2, 2, 2], data = [0, 0, 0, 0, 1, 1, 1, 1]\<rparr>\<rparr>
   \<and> length [''a'', ''c'']
       \<le> length [\<lparr>shape = [2, 2], data = [0, 0, 0, 0]\<rparr>, \<lparr>shape = [2, 2], data = [1, 1, 1, 1 :: real]\<rparr>]
   \<and> map fst [(''a'', StrCell ''-1''), (''b'', IntCell (- 1)), (''c'', StrCell ''0 4'')]
     = map fst example_df
   \<and> snd ([(''a'', StrCell ''-1''), (''b'', IntCell (- 1)), (''c'', StrCell ''0 4'')] ! 2)
     \<noteq> IntCell 1"
proof -
  let ?out = "\<lparr>submission_final =
             [(''a'', StrCell ''-1''), (''b'', IntCell (- 1)), (''c'', StrCell ''0 4'')],
           predicted_probability_masks =
             Some \<lparr>shape = [2, 2, 2], data = [0, 0, 0, 0, 1, 1, 1, 1]\<rparr>\<rparr>"
  have 1: "Stage2_masks example_collaborators (Single first_channel_model) example_df
      [''img/c.png'', ''img/b.png'', ''img/a.png''] 3 2 32 True (1 / 2) 3500 None
     = Inr ([''a'', ''c''], \<lparr>shape = [2, 2, 2], data = [0, 0, 0, 0, 1, 1, 1, 1]\<rparr>,
            \<lparr>shape = [2, 2, 2], data = [0, 0, 0, 0, 1, 1, 1, 1]\<rparr>)"
    by code_simp
  have 2: "Stage2 example_collaborators (Single first_channel_model) example_df
      [''img/c.png'', ''img/b.png'', ''img/a.png''] 3 2 32 True (1 / 2) True 3500 None
     = Inr ?out"
    by code_simp
  have 3: "np_iter \<lparr>shape = [2, 2, 2], data = [0, 0, 0, 0, 1, 1, 1, 1]\<rparr>
     = Inr [\<lparr>shape = [2, 2], data = [0, 0, 0, 0]\<rparr>, \<lparr>shape = [2, 2], data = [1, 1, 1, 1]\<rparr>]"
    by code_simp
  have 4: "length [''a'', ''c'']
      \<le> length [\<lparr>shape = [2, 2], data = [0, 0, 0, 0]\<rparr>, \<lparr>shape = [2, 2], data = [1, 1, 1, 1 :: real]\<rparr>]"
    by simp
  have k: "2 < length example_df" by (simp add: example_df_def)
  note t = stage2_terminal_state [OF 1 2 3]
  from t have 5: "map fst (submission_final ?out) = map fst example_df"
    by (rule conjunct1)
  from t 4 have "\<forall>k < length example_df. snd (submission_final ?out ! k) \<noteq> IntCell 1"
    by blast
  with k have 6: "snd (submission_final ?out ! 2) \<noteq> IntCell 1" by blast
  from 5 have m5: "map fst [(''a'', StrCell ''-1''), (''b'', IntCell (- 1)), (''c'', StrCell ''0 4'')]
     = map fst example_df" by simp
  from 6 have m6: "snd ([(''a'', StrCell ''-1''), (''b'', IntCell (- 1)), (''c'', StrCell ''0 4'')] ! 2)
     \<noteq> IntCell 1" by simp
  from 1 3 2 4 m5 m6 show ?thesis by (intro conjI)
qed

text \<open>
  C4, as stated, fails: with no pending identifier the prediction runner is still
  called, on the empty batch of shape \<open>(0,)\<close>, and a model that rejects that batch, as
  a Keras model does, ends the run with its error.
\<close>

theorem stage2_no_pending_counterexample:
  "Stage2 example_collaborators (Single rank4_model)
      [(''a'', IntCell (- 1)), (''b'', IntCell (- 1))] [''img/a.png'', ''img/b.png'']
      3 2 32 True (1 / 2) True 3500 None
     = Inl (ExternalError ''expected input to have 4 dimensions'')"
  by code_simp

text \<open>
  C4, amended. With no pending identifier the selection succeeds with nothing selected
  (no \<open>AssertionError\<close>), and the prediction runner is called on the preprocessed empty
  batch: an error it raises there is the error of the run. A run that completes has
  predicted on that batch, and writes the input table with blank cells replaced by
  \<open>"-1"\<close>, which is the input table when no cell is blank.
\<close>

theorem stage2_no_pending:
  assumes "list_all (\<lambda>(i, c). c \<noteq> IntCell 1) df"
  shows "Stage2_select (stem C) df fps = Inr ([], [])
    \<and> (\<forall>x e. (case pp of None \<Rightarrow> preprocess_input C | Some f \<Rightarrow> f) \<lparr>shape = [0], data = []\<rparr>
                = Inr x
             \<and> run_seg_prediction x m bs tta = Inl e
           \<longrightarrow> Stage2 C m df fps ch sz bs tta thr save roi pp = Inl e)
    \<and> (\<forall>out. Stage2 C m df fps ch sz bs tta thr save roi pp = Inr out
           \<longrightarrow> submission_final out = blank_to_negative df
             \<and> (\<exists>x raw. (case pp of None \<Rightarrow> preprocess_input C | Some f \<Rightarrow> f)
                           \<lparr>shape = [0], data = []\<rparr> = Inr x
                       \<and> run_seg_prediction x m bs tta = Inr raw
                       \<and> predicted_probability_masks out = (if save then Some raw else None)))
    \<and> (list_all (\<lambda>(i, c). c \<noteq> StrCell []) df \<longrightarrow> blank_to_negative df = df)"
proof -
  have none: "filter (\<lambda>(i, c). c = IntCell 1) df = []"
    using assms by (auto simp: filter_empty_conv list_all_iff)
  have sel: "Stage2_select (stem C) df fps = Inr ([], [])"
    by (simp add: Stage2_select_def none)
  have masks: "Stage2_masks C m df fps ch sz bs tta thr roi pp
      = ebind ((case pp of None \<Rightarrow> preprocess_input C | Some f \<Rightarrow> f) \<lparr>shape = [0], data = []\<rparr>)
          (\<lambda>x. ebind (run_seg_prediction x m bs tta) (\<lambda>raw.
                ebind (post_process_all C raw thr roi) (\<lambda>post. Inr ([], raw, post))))"
    by (simp add: Stage2_masks_def sel ebind_def np_asarray_def Let_def)
  have fail: "Stage2 C m df fps ch sz bs tta thr save roi pp = Inl e"
    if "(case pp of None \<Rightarrow> preprocess_input C | Some f \<Rightarrow> f) \<lparr>shape = [0], data = []\<rparr> = Inr x"
      and "run_seg_prediction x m bs tta = Inl e" for x e
    using that by (simp add: Stage2_def masks ebind_def)
  have ok: "submission_final out = blank_to_negative df
             \<and> (\<exists>x raw. (case pp of None \<Rightarrow> preprocess_input C | Some f \<Rightarrow> f)
                           \<lparr>shape = [0], data = []\<rparr> = Inr x
                       \<and> run_seg_prediction x m bs tta = Inr raw
                       \<and> predicted_probability_masks out = (if save then Some raw else None))"
    if run: "Stage2 C m df fps ch sz bs tta thr save roi pp = Inr out" for out
  proof -
    from run obtain ids raw post where
      m: "Stage2_masks C m df fps ch sz bs tta thr roi pp = Inr (ids, raw, post)"
      and ed: "edit_classification_df (mask2rle C) df post ids = Inr (submission_final out)"
      and sv: "predicted_probability_masks out = (if save then Some raw else None)"
      by (rule Stage2_Inr)
    from m obtain x where x: "(case pp of None \<Rightarrow> preprocess_input C | Some f \<Rightarrow> f)
          \<lparr>shape = [0], data = []\<rparr> = Inr x"
      and r: "run_seg_prediction x m bs tta = Inr raw" and "ids = []"
      unfolding masks by (auto simp: ebind_Inr_iff)
    from ed \<open>ids = []\<close> have "submission_final out = blank_to_negative df"
      by (auto elim!: edit_classification_df_Inr)
    with x r sv show ?thesis by blast
  qed
  have same: "blank_to_negative df = df" if "list_all (\<lambda>(i, c). c \<noteq> StrCell []) df"
    using that by (auto simp: blank_to_negative_def list_all_iff intro!: map_idI)
  from sel fail ok same show ?thesis by blast
qed

theorem stage2_no_pending_witness:
  "list_all (\<lambda>(i, c). c \<noteq> IntCell 1) [(''a'', IntCell (- 1)), (''b'', StrCell [])]
   \<and> Stage2_select (stem example_collaborators) [(''a'', IntCell (- 1)), (''b'', StrCell [])]
        [''img/a.png'', ''img/b.png''] = Inr ([], [])
   \<and> preprocess_input example_collaborators \<lparr>shape = [0], data = []\<rparr>
        = Inr \<lparr>shape = [0], data = []\<rparr>
   \<and> run_seg_prediction \<lparr>shape = [0], data = []\<rparr> (Single rank4_model) 32 True
        = Inl (ExternalError ''expected input to have 4 dimensions'')
   \<and> Stage2 example_collaborators (Single rank4_model) [(''a'', IntCell (- 1)), (''b'', StrCell [])]
        [''img/a.png'', ''img/b.png''] 3 2 32 True (1 / 2) True 3500 None
        = Inl (ExternalError ''expected input to have 4 dimensions'')
   \<and> Stage2 example_collaborators (Single lenient_model) [(''a'', IntCell (- 1)), (''b'', StrCell [])]
        [''img/a.png'', ''img/b.png''] 3 2 32 True (1 / 2) True 3500 None
        = Inr \<lparr>submission_final = [(''a'', IntCell (- 1)), (''b'', StrCell ''-1'')],
              predicted_probability_masks = Some \<lparr>shape = [0], data = []\<rparr>\<rparr>
   \<and> blank_to_negative [(''a'', IntCell (- 1)), (''b'', StrCell [])]
        = [(''a'', IntCell (- 1)), (''b'', StrCell ''-1'')]"
proof -
  let ?df = "[(''a'', IntCell (- 1)), (''b'', StrCell [])]"
  have h: "list_all (\<lambda>(i, c). c \<noteq> IntCell 1) ?df" by simp
  have p: "(case None of None \<Rightarrow> preprocess_input example_collaborators | Some f \<Rightarrow> f)
        \<lparr>shape = [0], data = []\<rparr> = Inr \<lparr>shape = [0], data = []\<rparr>"
    by (simp add: example_collaborators_def)
  have r: "run_seg_prediction \<lparr>shape = [0], data = []\<rparr> (Single rank4_model) 32 True
        = Inl (ExternalError ''expected input to have 4 dimensions'')"
    by code_simp
  have ok: "Stage2 example_collaborators (Single lenient_model) ?df
        [''img/a.png'', ''img/b.png''] 3 2 32 True (1 / 2) True 3500 None
        = Inr \<lparr>submission_final = [(''a'', IntCell (- 1)), (''b'', StrCell ''-1'')],
              predicted_probability_masks = Some \<lparr>shape = [0], data = []\<rparr>\<rparr>"
    by code_simp
  have b: "blank_to_negative ?df = [(''a'', IntCell (- 1)), (''b'', StrCell ''-1'')]"
    by (simp add: blank_to_negative_def)
  note t = stage2_no_pending [OF h, of example_collaborators "[''img/a.png'', ''img/b.png'']"
      None "Single rank4_model" 32 True 3 2 "1 / 2" True 3500]
  from t have sel: "Stage2_select (stem example_collaborators) ?df
        [''img/a.png'', ''img/b.png''] = Inr ([], [])"
    by (rule conjunct1)
  from t p r have fail: "Stage2 example_collaborators (Single rank4_model) ?df
        [''img/a.png'', ''img/b.png''] 3 2 32 True (1 / 2) True 3500 None
        = Inl (ExternalError ''expected input to have 4 dimensions'')"
    by blast
  from p have p': "preprocess_input example_collaborators \<lparr>shape = [0], data = []\<rparr>
        = Inr \<lparr>shape = [0], data = []\<rparr>" by simp
  from h sel p' r fail ok b show ?thesis by (intro conjI)
qed

text \<open>
  C5 fails on the code at a batch of one image: \<^verbatim>\<open>squeeze()\<close> has no axis
  argument, so it drops the leading axis of size 1 together with the channel axis, and the
  result has shape \<open>(2, 2)\<close> where the docstring of \<^verbatim>\<open>run_seg_prediction\<close> and the
  claim promise \<open>(1, 2, 2)\<close>. The same happens with test-time augmentation and with an
  ensemble.
\<close>

theorem squeeze_drops_batch_axis:
  "first_channel_model \<lparr>shape = [1, 2, 2, 3], data = [1, 0, 0, 2, 0, 0, 3, 0, 0, 4, 0, 0]\<rparr> 32
     = Inr \<lparr>shape = [1, 2, 2, 1], data = [1, 2, 3, 4]\<rparr>
   \<and> run_seg_prediction \<lparr>shape = [1, 2, 2, 3], data = [1, 0, 0, 2, 0, 0, 3, 0, 0, 4, 0, 0]\<rparr>
        (Single first_channel_model) 32 False
     = Inr \<lparr>shape = [2, 2], data = [1, 2, 3, 4]\<rparr>
   \<and> run_seg_prediction \<lparr>shape = [1, 2, 2, 3], data = [1, 0, 0, 2, 0, 0, 3, 0, 0, 4, 0, 0]\<rparr>
        (Single first_channel_model) 32 True
     = Inr \<lparr>shape = [2, 2], data = [1, 2, 3, 4]\<rparr>
   \<and> run_seg_prediction \<lparr>shape = [1, 2, 2, 3], data = [1, 0, 0, 2, 0, 0, 3, 0, 0, 4, 0, 0]\<rparr>
        (Ensemble [first_channel_model, first_channel_model]) 32 True
     = Inr \<lparr>shape = [2, 2], data = [1, 2, 3, 4]\<rparr>"
  by code_simp

text \<open>
  C9. Thresholding is strict: a pixel of the binarized mask is 1 exactly when its
  probability exceeds the threshold. The ensemble, without test-time augmentation, of a
  model that predicts 1 everywhere and a model that predicts 0 everywhere, in either
  order, is 1/2 everywhere, and at threshold 1/2 it binarizes to 0 everywhere.
\<close>

theorem binarize_strict:
  assumes "m1 x bs = Inr \<lparr>shape = s, data = replicate (prod_list s) 1\<rparr>"
    and "m0 x bs = Inr \<lparr>shape = s, data = replicate (prod_list s) 0\<rparr>"
  shows "shape (binarize p t) = shape p
     \<and> length (data (binarize p t)) = length (data p)
     \<and> (\<forall>i < length (data p).
           data (binarize p t) ! i = (if data p ! i > t then 1 else 0)
         \<and> (data (binarize p t) ! i = 1 \<longleftrightarrow> data p ! i > t))
     \<and> run_seg_prediction x (Ensemble [m1, m0]) bs False
         = Inr \<lparr>shape = filter (\<lambda>d. d \<noteq> 1) s, data = replicate (prod_list s) (1 / 2)\<rparr>
     \<and> run_seg_prediction x (Ensemble [m0, m1]) bs False
         = Inr \<lparr>shape = filter (\<lambda>d. d \<noteq> 1) s, data = replicate (prod_list s) (1 / 2)\<rparr>
     \<and> binarize \<lparr>shape = filter (\<lambda>d. d \<noteq> 1) s, data = replicate (prod_list s) (1 / 2)\<rparr> (1 / 2)
         = \<lparr>shape = filter (\<lambda>d. d \<noteq> 1) s, data = replicate (prod_list s) 0\<rparr>"
proof -
  let ?one = "\<lparr>shape = s, data = replicate (prod_list s) (1::real)\<rparr>"
  let ?zero = "\<lparr>shape = s, data = replicate (prod_list s) (0::real)\<rparr>"
  let ?half = "\<lparr>shape = s, data = replicate (prod_list s) (1 / 2 :: real)\<rparr>"
  have mean: "np_mean_axis0 \<lparr>shape = length as # s, data = concat (map data as)\<rparr> = Inr ?half"
    if "as = [?one, ?zero] \<or> as = [?zero, ?one]" for as
  proof -
    have "np_mean_axis0 \<lparr>shape = length as # s, data = concat (map data as)\<rparr>
      = Inr \<lparr>shape = s,
              data = map (\<lambda>j. sum_list (map (\<lambda>b. data b ! j) as) / real (length as))
                         [0..<prod_list s]\<rparr>"
      using that by (intro np_mean_axis0_stacked) (auto simp: wf_ndarray_def)
    moreover have "map (\<lambda>j. sum_list (map (\<lambda>b. data b ! j) as) / real (length as))
                         [0..<prod_list s] = replicate (prod_list s) (1 / 2)"
      using that by (intro nth_equalityI) auto
    ultimately show ?thesis by simp
  qed
  have st: "np_stack as = Inr \<lparr>shape = length as # s, data = concat (map data as)\<rparr>"
    if "as = [?one, ?zero] \<or> as = [?zero, ?one]" for as
    using that by (auto simp: np_stack_def)
  have run10: "run_seg_prediction x (Ensemble [m1, m0]) bs False = Inr (np_squeeze ?half)"
    using st [of "[?one, ?zero]"] mean [of "[?one, ?zero]"]
    by (simp add: run_seg_prediction_def ebind_def assms)
  have run01: "run_seg_prediction x (Ensemble [m0, m1]) bs False = Inr (np_squeeze ?half)"
    using st [of "[?zero, ?one]"] mean [of "[?zero, ?one]"]
    by (simp add: run_seg_prediction_def ebind_def assms)
  have bin: "\<forall>i < length (data p).
           data (binarize p t) ! i = (if data p ! i > t then 1 else 0)
         \<and> (data (binarize p t) ! i = 1 \<longleftrightarrow> data p ! i > t)"
    by (simp add: binarize_def)
  from run10 run01 bin show ?thesis
    by (simp add: np_squeeze_def binarize_def)
qed

theorem binarize_strict_witness:
  "const_model 1 \<lparr>shape = [2, 2, 2, 3], data = replicate 24 (1 / 3)\<rparr> 32
     = Inr \<lparr>shape = [2, 2, 2, 1], data = replicate (prod_list [2, 2, 2, 1]) 1\<rparr>
   \<and> const_model 0 \<lparr>shape = [2, 2, 2, 3], data = replicate 24 (1 / 3)\<rparr> 32
     = Inr \<lparr>shape = [2, 2, 2, 1], data = replicate (prod_list [2, 2, 2, 1]) 0\<rparr>
   \<and> run_seg_prediction \<lparr>shape = [2, 2, 2, 3], data = replicate 24 (1 / 3)\<rparr>
        (Ensemble [const_model 1, const_model 0]) 32 False
     = Inr \<lparr>shape = [2, 2, 2], data = [1 / 2, 1 / 2, 1 / 2, 1 / 2, 1 / 2, 1 / 2, 1 / 2, 1 / 2]\<rparr>
   \<and> binarize \<lparr>shape = [2, 2, 2], data = [1 / 2, 1 / 2, 1 / 2, 1 / 2, 1 / 2, 1 / 2, 1 / 2, 1 / 2]\<rparr>
        (1 / 2)
     = \<lparr>shape = [2, 2, 2], data = [0, 0, 0, 0, 0, 0, 0, 0]\<rparr>
   \<and> (0::nat) < length (data \<lparr>shape = [2], data = [1 / 2, 3 / 4]\<rparr>)
   \<and> data (binarize \<lparr>shape = [2], data = [1 / 2, 3 / 4]\<rparr> (1 / 2)) = [0, 1]"
proof -
  have 1: "const_model 1 \<lparr>shape = [2, 2, 2, 3], data = replicate 24 (1 / 3)\<rparr> 32
     = Inr \<lparr>shape = [2, 2, 2, 1], data = replicate (prod_list [2, 2, 2, 1]) 1\<rparr>"
    by code_simp
  have 0: "const_model 0 \<lparr>shape = [2, 2, 2, 3], data = replicate 24 (1 / 3)\<rparr> 32
     = Inr \<lparr>shape = [2, 2, 2, 1], data = replicate (prod_list [2, 2, 2, 1]) 0\<rparr>"
    by code_simp
  have r: "replicate 8 (v::real) = [v, v, v, v, v, v, v, v]" for v
    by (simp add: eval_nat_numeral)
  have b: "data (binarize \<lparr>shape = [2], data = [1 / 2, 3 / 4]\<rparr> (1 / 2)) = [0, 1]"
    by (simp add: binarize_def)
  from binarize_strict [of "const_model 1" "\<lparr>shape = [2, 2, 2, 3], data = replicate 24 (1 / 3)\<rparr>"
      32 "[2, 2, 2, 1]" "const_model 0" "\<lparr>shape = [2], data = [1 / 2, 3 / 4]\<rparr>" "1 / 2"] 1 0 b
  show ?thesis by (simp add: r)
qed

text \<open>
  C10. \<^verbatim>\<open>Stage2\<close> encodes every mask with the dimensions 1024 by 1024, whatever
  \<^verbatim>\<open>img_size\<close> is: its result, and that of \<^verbatim>\<open>edit_classification_df\<close>, depends on
  \<^verbatim>\<open>mask2rle\<close> only through its values at those dimensions, and a successful edit has
  encoded each mask of the batch at those dimensions.
\<close>

theorem encode_dims_fixed:
  assumes "\<forall>pred. f pred 1024 1024 = g pred 1024 1024"
  shows "edit_classification_df f df preds ids = edit_classification_df g df preds ids
    \<and> Stage2 (C\<lparr>mask2rle := f\<rparr>) m df fps ch img_size bs tta thr save roi pp
      = Stage2 (C\<lparr>mask2rle := g\<rparr>) m df fps ch img_size bs tta thr save roi pp
    \<and> (\<forall>df'. edit_classification_df f df preds ids = Inr df' \<longrightarrow>
          (\<exists>masks rles. np_iter preds = Inr masks
             \<and> map (\<lambda>pred. f pred 1024 1024) masks = map Inr rles
             \<and> df' = blank_to_negative
                  (foldl (\<lambda>d (pid, rle). loc_assign d pid rle) df (zip ids rles))))"
proof -
  from assms have fg: "(\<lambda>pred. f pred 1024 1024) = (\<lambda>pred. g pred 1024 1024)"
    by (intro ext) simp
  have ed: "edit_classification_df f d p i = edit_classification_df g d p i" for d p i
    by (simp add: edit_classification_df_def fg)
  have masks: "Stage2_masks (C\<lparr>mask2rle := f\<rparr>) m df fps ch img_size bs tta thr roi pp
      = Stage2_masks (C\<lparr>mask2rle := g\<rparr>) m df fps ch img_size bs tta thr roi pp"
    by (cases pp) (simp_all add: Stage2_masks_def)
  have st: "Stage2 (C\<lparr>mask2rle := f\<rparr>) m df fps ch img_size bs tta thr save roi pp
      = Stage2 (C\<lparr>mask2rle := g\<rparr>) m df fps ch img_size bs tta thr save roi pp"
    by (simp add: Stage2_def masks ed)
  have ex: "\<exists>masks rles. np_iter preds = Inr masks
             \<and> map (\<lambda>pred. f pred 1024 1024) masks = map Inr rles
             \<and> df' = blank_to_negative
                  (foldl (\<lambda>d (pid, rle). loc_assign d pid rle) df (zip ids rles))"
    if "edit_classification_df f df preds ids = Inr df'" for df'
    using that by (rule edit_classification_df_Inr) blast
  from ed st ex show ?thesis by blast
qed

theorem encode_dims_fixed_witness:
  "example_mask2rle \<lparr>shape = [2, 2], data = [1, 1, 1, 1]\<rparr> 1024 1024
     = strict_mask2rle \<lparr>shape = [2, 2], data = [1, 1, 1, 1]\<rparr> 1024 1024
   \<and> strict_mask2rle \<lparr>shape = [2, 2], data = [1, 1, 1, 1]\<rparr> 2 2
     = Inl (ExternalError ''unexpected dimensions'')
   \<and> Stage2 (example_collaborators\<lparr>mask2rle := strict_mask2rle\<rparr>) (Single first_channel_model)
        example_df [''img/c.png'', ''img/b.png'', ''img/a.png''] 3 2 32 True (1 / 2) True 3500 None
     = Stage2 (example_collaborators\<lparr>mask2rle := example_mask2rle\<rparr>) (Single first_channel_model)
        example_df [''img/c.png'', ''img/b.png'', ''img/a.png''] 3 2 32 True (1 / 2) True 3500 None
   \<and> Stage2 (example_collaborators\<lparr>mask2rle := strict_mask2rle\<rparr>) (Single first_channel_model)
        example_df [''img/c.png'', ''img/b.png'', ''img/a.png''] 3 2 32 True (1 / 2) True 3500 None
     = Inr \<lparr>submission_final =
             [(''a'', StrCell ''-1''), (''b'', IntCell (- 1)), (''c'', StrCell ''0 4'')],
           predicted_probability_masks =
             Some \<lparr>shape = [2, 2, 2], data = [0, 0, 0, 0, 1, 1, 1, 1]\<rparr>\<rparr>"
proof -
  have h: "\<forall>pred. strict_mask2rle pred 1024 1024 = example_mask2rle pred 1024 1024"
    by (simp add: strict_mask2rle_def)
  have 1: "strict_mask2rle \<lparr>shape = [2, 2], data = [1, 1, 1, 1]\<rparr> 2 2
     = Inl (ExternalError ''unexpected dimensions'')"
    by code_simp
  have 2: "Stage2 (example_collaborators\<lparr>mask2rle := strict_mask2rle\<rparr>) (Single first_channel_model)
        example_df [''img/c.png'', ''img/b.png'', ''img/a.png''] 3 2 32 True (1 / 2) True 3500 None
     = Inr \<lparr>submission_final =
             [(''a'', StrCell ''-1''), (''b'', IntCell (- 1)), (''c'', StrCell ''0 4'')],
           predicted_probability_masks =
             Some \<lparr>shape = [2, 2, 2], data = [0, 0, 0, 0, 1, 1, 1, 1]\<rparr>\<rparr>"
    by code_simp
  from h encode_dims_fixed [of strict_mask2rle example_mask2rle example_df "\<lparr>shape = [2, 2], data = [1, 1, 1, 1]\<rparr>" "[]"
      example_collaborators "Single first_channel_model"
      "[''img/c.png'', ''img/b.png'', ''img/a.png'']" 3 2 32 True "1 / 2" True 3500 None]
  have 3: "Stage2 (example_collaborators\<lparr>mask2rle := strict_mask2rle\<rparr>) (Single first_channel_model)
        example_df [''img/c.png'', ''img/b.png'', ''img/a.png''] 3 2 32 True (1 / 2) True 3500 None
     = Stage2 (example_collaborators\<lparr>mask2rle := example_mask2rle\<rparr>) (Single first_channel_model)
        example_df [''img/c.png'', ''img/b.png'', ''img/a.png''] 3 2 32 True (1 / 2) True 3500 None"
    by blast
  from h have 0: "example_mask2rle \<lparr>shape = [2, 2], data = [1, 1, 1, 1]\<rparr> 1024 1024
     = strict_mask2rle \<lparr>shape = [2, 2], data = [1, 1, 1, 1]\<rparr> 1024 1024"
    by simp
  from 0 1 3 2 show ?thesis by (intro conjI)
qed

text \<open>
  C8. For every binary mask of the declared height and width, decoding its encoding gives
  the mask back. The encoding is never the empty string; it is \<open>"-1"\<close> exactly when the
  mask has no foreground, and \<open>"-1"\<close> decodes to the mask without foreground. The runs
  of the encoding are maximal foreground sequences of the column-major scan, in scan
  order, with background between any two of them.
\<close>

theorem rle_roundtrip:
  assumes "valid_mask m height width"
  shows "rle_to_mask (mask_to_rle m height width) height width = Inr m
    \<and> mask_to_rle m height width \<noteq> []
    \<and> (mask_to_rle m height width = ''-1'' \<longleftrightarrow> list_all (\<lambda>v. v = 0) (data m))
    \<and> rle_to_mask ''-1'' height width
        = Inr \<lparr>shape = [height, width], data = replicate (height * width) 0\<rparr>
    \<and> list_all (maximal_run (column_major_scan m height width))
         (find_runs 0 (column_major_scan m height width))
    \<and> sorted_wrt (\<lambda>r r'. fst r + snd r < fst r') (find_runs 0 (column_major_scan m height width))"
proof -
  let ?bits = "column_major_scan m height width"
  let ?rs = "find_runs 0 ?bits"
  have dec: "mask_of_runs ?rs height width = m"
    using assms by (rule mask_of_runs_scan)
  have rt: "rle_to_mask (mask_to_rle m height width) height width = Inr m"
  proof (cases "?rs = []")
    case True
    with dec show ?thesis by (simp add: rle_to_mask_def mask_to_rle_def rle_string_def)
  next
    case False
    then have "parse_rle (rle_string ?rs) = Inr ?rs" and "rle_string ?rs \<noteq> ''-1''"
      by (rule parse_rle_string)+
    with dec show ?thesis by (simp add: rle_to_mask_def mask_to_rle_def ebind_def)
  qed
  have ne: "mask_to_rle m height width \<noteq> []"
    by (simp add: mask_to_rle_def rle_string_nonempty)
  have zero: "mask_to_rle m height width = ''-1'' \<longleftrightarrow> list_all (\<lambda>v. v = 0) (data m)"
  proof
    assume "mask_to_rle m height width = ''-1''"
    then have "?rs = []"
      using parse_rle_string(2) [of ?rs] by (auto simp: mask_to_rle_def)
    with dec have "m = mask_of_runs [] height width" by simp
    then have "data m = replicate (height * width) 0" by (simp add: mask_of_runs_Nil)
    then show "list_all (\<lambda>v. v = 0) (data m)" by (simp add: list_all_iff)
  next
    assume "list_all (\<lambda>v. v = 0) (data m)"
    with assms have "list_all (\<lambda>b. \<not> b) ?bits" by (rule column_major_scan_zero)
    then have "?rs = []" by (rule find_runs_all_False)
    then show "mask_to_rle m height width = ''-1''"
      by (simp add: mask_to_rle_def rle_string_def)
  qed
  have sentinel: "rle_to_mask ''-1'' height width
        = Inr \<lparr>shape = [height, width], data = replicate (height * width) 0\<rparr>"
    by (simp add: rle_to_mask_def mask_of_runs_Nil)
  from rt ne zero sentinel find_runs_maximal [of ?bits] find_runs_separated [of 0 ?bits]
  show ?thesis by (intro conjI)
qed

theorem rle_roundtrip_witness:
  "valid_mask \<lparr>shape = [2, 3], data = [0, 1, 1, 1, 0, 1]\<rparr> 2 3
   \<and> column_major_scan \<lparr>shape = [2, 3], data = [0, 1, 1, 1, 0, 1]\<rparr> 2 3
       = [False, True, True, False, True, True]
   \<and> mask_to_rle \<lparr>shape = [2, 3], data = [0, 1, 1, 1, 0, 1]\<rparr> 2 3 = ''1 2 4 2''
   \<and> rle_to_mask ''1 2 4 2'' 2 3 = Inr \<lparr>shape = [2, 3], data = [0, 1, 1, 1, 0, 1]\<rparr>
   \<and> mask_to_rle \<lparr>shape = [2, 3], data = [0, 0, 0, 0, 0, 0]\<rparr> 2 3 = ''-1''
   \<and> rle_to_mask ''-1'' 2 3 = Inr \<lparr>shape = [2, 3], data = [0, 0, 0, 0, 0, 0]\<rparr>"
proof -
  have v: "valid_mask \<lparr>shape = [2, 3], data = [0, 1, 1, 1, 0, 1]\<rparr> 2 3"
    by (simp add: valid_mask_def)
  have s: "column_major_scan \<lparr>shape = [2, 3], data = [0, 1, 1, 1, 0, 1]\<rparr> 2 3
       = [False, True, True, False, True, True]"
    by code_simp
  have e: "mask_to_rle \<lparr>shape = [2, 3], data = [0, 1, 1, 1, 0, 1]\<rparr> 2 3 = ''1 2 4 2''"
    by code_simp
  have z: "mask_to_rle \<lparr>shape = [2, 3], data = [0, 0, 0, 0, 0, 0]\<rparr> 2 3 = ''-1''"
    by code_simp
  have r: "replicate (2 * 3) (0::real) = [0, 0, 0, 0, 0, 0]"
    by (simp add: eval_nat_numeral)
  from rle_roundtrip [OF v]
  have d: "rle_to_mask (mask_to_rle \<lparr>shape = [2, 3], data = [0, 1, 1, 1, 0, 1]\<rparr> 2 3) 2 3
        = Inr \<lparr>shape = [2, 3], data = [0, 1, 1, 1, 0, 1]\<rparr>"
    and n: "rle_to_mask ''-1'' 2 3 = Inr \<lparr>shape = [2, 3], data = replicate (2 * 3) 0\<rparr>"
    by blast+
  from d have d': "rle_to_mask ''1 2 4 2'' 2 3 = Inr \<lparr>shape = [2, 3], data = [0, 1, 1, 1, 0, 1]\<rparr>"
    by (simp only: e)
  from n have n': "rle_to_mask ''-1'' 2 3 = Inr \<lparr>shape = [2, 3], data = [0, 0, 0, 0, 0, 0]\<rparr>"
    by (simp only: r)
  from v s e d' z n' show ?thesis by (intro conjI)
qed




end
